theory Spec2Isabelle
  imports Complex_Main "HOL-Library.Word" "HOL-Library.Sublist" "HOL-Library.AList"
begin

section \<open>Runtime values: strings, numbers, JSON\<close>

text \<open>
  The program is TypeScript. Its strings are sequences of 16-bit code units, so a string
  is a list of 16-bit words; \<open>js\<close> embeds an ASCII/Latin-1 literal of the source.
\<close>

type_synonym jschar = "16 word"
type_synonym jsstring = "jschar list"

definition js :: "string \<Rightarrow> jsstring" where
  "js s = map of_char s"

text \<open>
  A JavaScript number is a double. The model keeps the exact mathematical value of a
  numeric literal as a rational (rounding to the nearest double is not modelled), next to
  the three non-finite values.
\<close>

datatype jsnum = NaN | Num rat | PosInfinity | NegInfinity

text \<open>
  The values \<open>JSON.parse\<close> produces. An object is its list of own properties in
  insertion order, without duplicate keys.
\<close>

datatype json =
    JNull
  | JBool bool
  | JNum rat
  | JStr jsstring
  | JArr "json list"
  | JObj "(jsstring \<times> json) list"

datatype exn = TypeError | SyntaxError | Rejected jsstring

subsection \<open>Characters\<close>

definition is_digit :: "jschar \<Rightarrow> bool" where
  "is_digit c = (0x30 \<le> c \<and> c \<le> 0x39)"

definition digit_val :: "jschar \<Rightarrow> nat" where
  "digit_val c = unat c - 48"

definition digits_val :: "jsstring \<Rightarrow> nat" where
  "digits_val ds = foldl (\<lambda>n c. 10 * n + digit_val c) 0 ds"

definition hex_val :: "jschar \<Rightarrow> nat option" where
  "hex_val c =
     (if 0x30 \<le> c \<and> c \<le> 0x39 then Some (unat c - 48)
      else if 0x41 \<le> c \<and> c \<le> 0x46 then Some (unat c - 55)
      else if 0x61 \<le> c \<and> c \<le> 0x66 then Some (unat c - 87)
      else None)"

definition hex4 :: "jschar \<Rightarrow> jschar \<Rightarrow> jschar \<Rightarrow> jschar \<Rightarrow> jschar option" where
  "hex4 a b c d =
     (case (hex_val a, hex_val b, hex_val c, hex_val d) of
        (Some p, Some q, Some r, Some s) \<Rightarrow> Some (of_nat (((p * 16 + q) * 16 + r) * 16 + s))
      | _ \<Rightarrow> None)"

definition hex_digit :: "nat \<Rightarrow> jschar" where
  "hex_digit n = (if n < 10 then of_nat (48 + n) else of_nat (87 + n))"

text \<open>The four white space characters of the JSON grammar.\<close>

definition is_json_ws :: "jschar \<Rightarrow> bool" where
  "is_json_ws c = (c = 0x20 \<or> c = 0x09 \<or> c = 0x0A \<or> c = 0x0D)"

definition skip_ws :: "jsstring \<Rightarrow> jsstring" where
  "skip_ws s = dropWhile is_json_ws s"

fun strip_prefix :: "jsstring \<Rightarrow> jsstring \<Rightarrow> jsstring option" where
  "strip_prefix [] s = Some s"
| "strip_prefix (p # ps) [] = None"
| "strip_prefix (p # ps) (c # cs) = (if p = c then strip_prefix ps cs else None)"

subsection \<open>\<open>JSON.parse\<close>\<close>

text \<open>
  \<open>JSON.parse\<close> belongs to the language runtime; it is modelled after the JSON grammar
  (ECMA-404) as a recursive-descent parser. Every parsing function returns the value read
  and the rest of the text, or \<open>None\<close> where the runtime throws a \<open>SyntaxError\<close>.
\<close>

text \<open>The single-character escapes of a JSON string: \<open>\" \\ \/ \b \f \n \r \t\<close>.\<close>

definition unescape :: "jschar \<Rightarrow> jschar option" where
  "unescape e =
     (if e = 0x22 then Some 0x22
      else if e = 0x5C then Some 0x5C
      else if e = 0x2F then Some 0x2F
      else if e = 0x62 then Some 0x08
      else if e = 0x66 then Some 0x0C
      else if e = 0x6E then Some 0x0A
      else if e = 0x72 then Some 0x0D
      else if e = 0x74 then Some 0x09
      else None)"

text \<open>The characters of a string, read after its opening quote up to the closing one.\<close>

fun parse_chars :: "jsstring \<Rightarrow> (jsstring \<times> jsstring) option" where
  "parse_chars [] = None"
| "parse_chars (c # cs) =
     (if c = 0x22 then Some ([], cs)
      else if c = 0x5C then
        (case cs of
           [] \<Rightarrow> None
         | e # r \<Rightarrow>
             if e = 0x75 then
               (case r of
                  h1 # h2 # h3 # h4 # r' \<Rightarrow>
                    (case hex4 h1 h2 h3 h4 of
                       None \<Rightarrow> None
                     | Some u \<Rightarrow> map_option (apfst ((#) u)) (parse_chars r'))
                | _ \<Rightarrow> None)
             else
               (case unescape e of
                  None \<Rightarrow> None
                | Some u \<Rightarrow> map_option (apfst ((#) u)) (parse_chars r)))
      else if c < 0x20 then None
      else map_option (apfst ((#) c)) (parse_chars cs))"

text \<open>
  A number: \<open>-? (0 | [1-9][0-9]*) (. [0-9]+)? ([eE] [+-]? [0-9]+)?\<close>, read from the
  first character of the text.
\<close>

definition parse_int_part :: "jsstring \<Rightarrow> (nat \<times> jsstring) option" where
  "parse_int_part s =
     (case s of
        [] \<Rightarrow> None
      | c # cs \<Rightarrow>
          if c = 0x30 then Some (0, cs)
          else if is_digit c then
            Some (digits_val (takeWhile is_digit s), dropWhile is_digit s)
          else None)"

definition parse_frac_part :: "jsstring \<Rightarrow> (rat \<times> jsstring) option" where
  "parse_frac_part s =
     (case s of
        c # cs \<Rightarrow>
          if c = 0x2E then
            (let ds = takeWhile is_digit cs in
             if ds = [] then None
             else Some (of_nat (digits_val ds) / 10 ^ length ds, dropWhile is_digit cs))
          else Some (0, s)
      | [] \<Rightarrow> Some (0, s))"

definition parse_exp_part :: "jsstring \<Rightarrow> (int \<times> jsstring) option" where
  "parse_exp_part s =
     (case s of
        c # cs \<Rightarrow>
          if c = 0x65 \<or> c = 0x45 then
            (let (neg, r) =
                   (case cs of
                      [] \<Rightarrow> (False, cs)
                    | d # ds \<Rightarrow>
                        if d = 0x2D then (True, ds)
                        else if d = 0x2B then (False, ds)
                        else (False, cs));
                 es = takeWhile is_digit r
             in if es = [] then None
                else Some ((if neg then - int (digits_val es) else int (digits_val es)),
                           dropWhile is_digit r))
          else Some (0, s)
      | [] \<Rightarrow> Some (0, s))"

definition pow10 :: "int \<Rightarrow> rat" where
  "pow10 e = (if 0 \<le> e then 10 ^ nat e else 1 / 10 ^ nat (- e))"

definition parse_number :: "jsstring \<Rightarrow> (rat \<times> jsstring) option" where
  "parse_number s =
     (let (neg, s1) = (case s of [] \<Rightarrow> (False, s) | c # cs \<Rightarrow> if c = 0x2D then (True, cs) else (False, s))
      in case parse_int_part s1 of
           None \<Rightarrow> None
         | Some (n, s2) \<Rightarrow>
             (case parse_frac_part s2 of
                None \<Rightarrow> None
              | Some (f, s3) \<Rightarrow>
                  (case parse_exp_part s3 of
                     None \<Rightarrow> None
                   | Some (e, s4) \<Rightarrow>
                       Some ((if neg then - 1 else 1) * (of_nat n + f) * pow10 e, s4))))"

text \<open>The values that are neither array, object nor string.\<close>

definition parse_atom :: "jsstring \<Rightarrow> (json \<times> jsstring) option" where
  "parse_atom s =
     (case strip_prefix (js ''true'') s of
        Some r \<Rightarrow> Some (JBool True, r)
      | None \<Rightarrow>
          (case strip_prefix (js ''false'') s of
             Some r \<Rightarrow> Some (JBool False, r)
           | None \<Rightarrow>
               (case strip_prefix (js ''null'') s of
                  Some r \<Rightarrow> Some (JNull, r)
                | None \<Rightarrow> map_option (apfst JNum) (parse_number s))))"

text \<open>
  A property defined twice keeps its first position and takes the last value, as
  \<open>AList.update\<close> does. (The runtime moves integer-like keys to the front; no function
  of the program observes the order of the properties.)
\<close>

definition mk_object :: "(jsstring \<times> json) list \<Rightarrow> json" where
  "mk_object kvs = JObj (foldl (\<lambda>al (k, v). AList.update k v al) [] kvs)"

lemma skip_ws_Cons_length: "skip_ws s = c # cs \<Longrightarrow> length cs < length s"
proof -
  assume h: "skip_ws s = c # cs"
  have "length (skip_ws s) \<le> length s"
    unfolding skip_ws_def by (rule length_dropWhile_le)
  with h show ?thesis by simp
qed

lemma parse_chars_length: "parse_chars s = Some (k, r) \<Longrightarrow> length r < length s"
proof (induction s arbitrary: k r rule: parse_chars.induct)
  case 1
  then show ?case by simp
next
  case (2 c cs)
  show ?case
  proof (cases "c = 0x22")
    case True
    with "2.prems" show ?thesis by simp
  next
    case nq: False
    show ?thesis
    proof (cases "c = 0x5C")
      case False
      with nq "2.prems" obtain k' where "parse_chars cs = Some (k', r)"
        by (auto split: if_splits)
      with "2.IH"(3) [OF nq False] nq False "2.prems" show ?thesis
        by (fastforce split: if_splits)
    next
      case bs: True
      then obtain e r0 where cs: "cs = e # r0"
        using "2.prems" nq by (cases cs) auto
      show ?thesis
      proof (cases "e = 0x75")
        case True
        with "2.prems" nq bs cs obtain h1 h2 h3 h4 r' u k'
          where r0: "r0 = h1 # h2 # h3 # h4 # r'" and hx: "hex4 h1 h2 h3 h4 = Some u"
            and rec: "parse_chars r' = Some (k', r)"
          by (auto split: list.splits option.splits)
        from "2.IH"(1) [OF nq bs cs True r0 _ _ _ hx rec] have "length r < length r'"
          by simp
        with cs r0 show ?thesis by simp
      next
        case False
        with "2.prems" nq bs cs obtain u k'
          where ux: "unescape e = Some u" and rec: "parse_chars r0 = Some (k', r)"
          by (auto split: option.splits)
        from "2.IH"(2) [OF nq bs cs False ux rec] have "length r < length r0" .
        with cs show ?thesis by simp
      qed
    qed
  qed
qed

text \<open>
  Values, the elements of an array after its opening bracket, and the members of an
  object after its opening brace. The tests \<open>length _ < length s\<close> hold whenever they are
  reached (\<open>parse_lengths\<close> below; \<open>parse_elems_unguarded\<close> and \<open>parse_members_unguarded\<close>
  state the two functions without them); they make the recursion visibly terminating.
\<close>

function parse_value :: "jsstring \<Rightarrow> (json \<times> jsstring) option"
  and parse_elems :: "jsstring \<Rightarrow> (json list \<times> jsstring) option"
  and parse_members :: "jsstring \<Rightarrow> ((jsstring \<times> json) list \<times> jsstring) option"
where
  "parse_value s =
     (case skip_ws s of
        [] \<Rightarrow> None
      | c # cs \<Rightarrow>
          if c = 0x5B then
            (case skip_ws cs of
               [] \<Rightarrow> None
             | d # ds \<Rightarrow>
                 if d = 0x5D then Some (JArr [], ds)
                 else map_option (apfst JArr) (parse_elems cs))
          else if c = 0x7B then
            (case skip_ws cs of
               [] \<Rightarrow> None
             | d # ds \<Rightarrow>
                 if d = 0x7D then Some (mk_object [], ds)
                 else map_option (apfst mk_object) (parse_members cs))
          else if c = 0x22 then map_option (apfst JStr) (parse_chars cs)
          else parse_atom (c # cs))"
| "parse_elems s =
     (case parse_value s of
        None \<Rightarrow> None
      | Some (v, r) \<Rightarrow>
          (case skip_ws r of
             [] \<Rightarrow> None
           | c # cs \<Rightarrow>
               if c = 0x5D then Some ([v], cs)
               else if c = 0x2C \<and> length cs < length s then
                 map_option (apfst ((#) v)) (parse_elems cs)
               else None))"
| "parse_members s =
     (case skip_ws s of
        [] \<Rightarrow> None
      | q # cs \<Rightarrow>
          if q = 0x22 then
            (case parse_chars cs of
               None \<Rightarrow> None
             | Some (k, r) \<Rightarrow>
                 (case skip_ws r of
                    [] \<Rightarrow> None
                  | c # r2 \<Rightarrow>
                      if c = 0x3A then
                        (case parse_value r2 of
                           None \<Rightarrow> None
                         | Some (v, r3) \<Rightarrow>
                             (case skip_ws r3 of
                                [] \<Rightarrow> None
                              | d # r4 \<Rightarrow>
                                  if d = 0x7D then Some ([(k, v)], r4)
                                  else if d = 0x2C \<and> length r4 < length s then
                                    map_option (apfst ((#) (k, v))) (parse_members r4)
                                  else None))
                      else None))
          else None)"
  by pat_completeness auto
termination
proof (relation "measure (\<lambda>x. case x of
          Inl s \<Rightarrow> 2 * length s
        | Inr (Inl s) \<Rightarrow> 2 * length s + 1
        | Inr (Inr s) \<Rightarrow> 2 * length s + 1)", goal_cases)
  case 1
  show ?case by simp
next
  case (2 s c cs d ds)
  from skip_ws_Cons_length [OF 2(1)] show ?case by simp
next
  case (3 s c cs d ds)
  from skip_ws_Cons_length [OF 3(1)] show ?case by simp
next
  case (4 s)
  show ?case by simp
next
  case (5 s x v r c cs)
  then show ?case by simp
next
  case (6 s q cs x k r c r2)
  from skip_ws_Cons_length [OF 6(1)] parse_chars_length [of cs k r]
    skip_ws_Cons_length [OF 6(5)] 6(3,4)
  show ?case by simp
next
  case (7 s q cs x k r c r2 y v r3 d r4)
  then show ?case by simp
qed

declare parse_value.simps [simp del] parse_elems.simps [simp del] parse_members.simps [simp del]

definition JSON_parse :: "jsstring \<Rightarrow> json option" where
  "JSON_parse s =
     (case parse_value s of
        None \<Rightarrow> None
      | Some (v, r) \<Rightarrow> if skip_ws r = [] then Some v else None)"

text \<open>
  Two notions for stating facts about the parser: a text \<open>s\<close> from which a non-empty part
  ending in a digit has been read, leaving \<open>r\<close>; and a value that holds no string and no
  property.
\<close>

definition ends_in_digit :: "jsstring \<Rightarrow> jsstring \<Rightarrow> bool" where
  "ends_in_digit s r = (\<exists>p. s = p @ r \<and> p \<noteq> [] \<and> is_digit (last p))"

fun stringless :: "json \<Rightarrow> bool" where
  "stringless (JStr s) = False"
| "stringless (JArr xs) = (\<forall>x \<in> set xs. stringless x)"
| "stringless (JObj kvs) = (kvs = [])"
| "stringless v = True"

subsection \<open>\<open>JSON.stringify\<close>\<close>

text \<open>
  Quoting a string (QuoteJSONString): the escapes \<open>\b \t \n \f \r \" \\\<close>, a
  \<open>\uXXXX\<close> escape in lower-case hexadecimal for the other code units below 0x20 and
  for a surrogate that is not part of a pair, every other code unit as it is.
\<close>

definition is_high_surrogate :: "jschar \<Rightarrow> bool" where
  "is_high_surrogate c = (0xD800 \<le> c \<and> c \<le> 0xDBFF)"

definition is_low_surrogate :: "jschar \<Rightarrow> bool" where
  "is_low_surrogate c = (0xDC00 \<le> c \<and> c \<le> 0xDFFF)"

definition unicode_escape :: "jschar \<Rightarrow> jsstring" where
  "unicode_escape c =
     [0x5C, 0x75,
      hex_digit (unat c div 4096), hex_digit (unat c div 256 mod 16),
      hex_digit (unat c div 16 mod 16), hex_digit (unat c mod 16)]"

definition quote_unit :: "jschar \<Rightarrow> jsstring" where
  "quote_unit c =
     (if c = 0x08 then [0x5C, 0x62]
      else if c = 0x09 then [0x5C, 0x74]
      else if c = 0x0A then [0x5C, 0x6E]
      else if c = 0x0C then [0x5C, 0x66]
      else if c = 0x0D then [0x5C, 0x72]
      else if c = 0x22 then [0x5C, 0x22]
      else if c = 0x5C then [0x5C, 0x5C]
      else if c < 0x20 \<or> is_high_surrogate c \<or> is_low_surrogate c then unicode_escape c
      else [c])"

fun quote_units :: "jsstring \<Rightarrow> jsstring" where
  "quote_units [] = []"
| "quote_units [c] = quote_unit c"
| "quote_units (c # d # ds) =
     (if is_high_surrogate c \<and> is_low_surrogate d then c # d # quote_units ds
      else quote_unit c @ quote_units (d # ds))"

definition quote :: "jsstring \<Rightarrow> jsstring" where
  "quote s = 0x22 # quote_units s @ [0x22]"

fun join :: "jsstring \<Rightarrow> jsstring list \<Rightarrow> jsstring" where
  "join sep [] = []"
| "join sep [x] = x"
| "join sep (x # y # ys) = x @ sep @ join sep (y # ys)"

text \<open>
  The text of a value. Printing a number is the runtime's conversion of a double to its
  shortest decimal form; it is the parameter \<open>ns\<close>.
\<close>

fun stringify :: "(rat \<Rightarrow> jsstring) \<Rightarrow> json \<Rightarrow> jsstring" where
  "stringify ns JNull = js ''null''"
| "stringify ns (JBool b) = (if b then js ''true'' else js ''false'')"
| "stringify ns (JNum r) = ns r"
| "stringify ns (JStr s) = quote s"
| "stringify ns (JArr xs) = 0x5B # join [0x2C] (map (stringify ns) xs) @ [0x5D]"
| "stringify ns (JObj kvs) =
     0x7B # join [0x2C] (map (\<lambda>kv. quote (fst kv) @ 0x3A # stringify ns (snd kv)) kvs) @ [0x7D]"

text \<open>\<open>JSON.stringify(undefined)\<close> is \<open>undefined\<close>: no text.\<close>

definition JSON_stringify :: "(rat \<Rightarrow> jsstring) \<Rightarrow> json option \<Rightarrow> jsstring option" where
  "JSON_stringify ns v = map_option (stringify ns) v"

subsection \<open>Conversions\<close>

text \<open>White space and line terminators, as \<open>trim\<close> and \<open>Number\<close> strip them.\<close>

definition is_js_ws :: "jschar \<Rightarrow> bool" where
  "is_js_ws c =
     (c = 0x09 \<or> c = 0x0A \<or> c = 0x0B \<or> c = 0x0C \<or> c = 0x0D \<or> c = 0x20 \<or> c = 0xA0
      \<or> c = 0x1680 \<or> (0x2000 \<le> c \<and> c \<le> 0x200A) \<or> c = 0x2028 \<or> c = 0x2029
      \<or> c = 0x202F \<or> c = 0x205F \<or> c = 0x3000 \<or> c = 0xFEFF)"

definition trim :: "jsstring \<Rightarrow> jsstring" where
  "trim s = rev (dropWhile is_js_ws (rev (dropWhile is_js_ws s)))"

fun split_on :: "jschar \<Rightarrow> jsstring \<Rightarrow> jsstring list" where
  "split_on sep [] = [[]]"
| "split_on sep (c # cs) =
     (if c = sep then [] # split_on sep cs
      else (case split_on sep cs of
              [] \<Rightarrow> [[c]]
            | x # xs \<Rightarrow> (c # x) # xs))"

text \<open>The decimal digits of a non-negative integer, as a template literal prints it.\<close>

function nat_to_string :: "nat \<Rightarrow> jsstring" where
  "nat_to_string n =
     (if n < 10 then [of_nat (48 + n)]
      else nat_to_string (n div 10) @ [of_nat (48 + n mod 10)])"
  by pat_completeness auto
termination
  by (relation "measure id") auto

declare nat_to_string.simps [simp del]

text \<open>
  \<open>ToString\<close> of a value, as \<open>Array.prototype.join\<close> and the conversion of an array or
  object to a primitive use it: \<open>null\<close> elements of an array print as the empty string.
\<close>

fun to_string :: "(rat \<Rightarrow> jsstring) \<Rightarrow> json \<Rightarrow> jsstring" where
  "to_string ns JNull = js ''null''"
| "to_string ns (JBool b) = (if b then js ''true'' else js ''false'')"
| "to_string ns (JNum r) = ns r"
| "to_string ns (JStr s) = s"
| "to_string ns (JArr xs) =
     join [0x2C] (map (\<lambda>x. if x = JNull then [] else to_string ns x) xs)"
| "to_string ns (JObj kvs) = js ''[object Object]''"

text \<open>
  \<open>StringToNumber\<close>: the text is trimmed; the empty text is 0; otherwise it must be, as a
  whole, a binary, octal or hexadecimal integer literal without sign, or an optionally
  signed \<open>Infinity\<close> or decimal literal \<open>digits [. digits] [exponent]\<close> or
  \<open>. digits [exponent]\<close>; anything else is \<open>NaN\<close>.
\<close>

definition radix_digit :: "nat \<Rightarrow> jschar \<Rightarrow> bool" where
  "radix_digit b c = (case hex_val c of None \<Rightarrow> False | Some d \<Rightarrow> d < b)"

definition radix_val :: "nat \<Rightarrow> jsstring \<Rightarrow> nat" where
  "radix_val b ds = foldl (\<lambda>n c. b * n + (case hex_val c of None \<Rightarrow> 0 | Some d \<Rightarrow> d)) 0 ds"

definition radix_literal :: "nat \<Rightarrow> jsstring \<Rightarrow> jsnum" where
  "radix_literal b ds =
     (if ds \<noteq> [] \<and> list_all (radix_digit b) ds then Num (of_nat (radix_val b ds)) else NaN)"

definition unsigned_decimal :: "jsstring \<Rightarrow> rat option" where
  "unsigned_decimal s =
     (let d1 = takeWhile is_digit s; r1 = dropWhile is_digit s;
          (d2, r2) = (case r1 of
                        [] \<Rightarrow> ([], r1)
                      | c # cs \<Rightarrow>
                          if c = 0x2E then (takeWhile is_digit cs, dropWhile is_digit cs)
                          else ([], r1))
      in if d1 = [] \<and> d2 = [] then None
         else (case parse_exp_part r2 of
                 None \<Rightarrow> None
               | Some (e, r3) \<Rightarrow>
                   if r3 = [] then
                     Some ((of_nat (digits_val d1) + of_nat (digits_val d2) / 10 ^ length d2)
                           * pow10 e)
                   else None))"

definition signed_decimal :: "jsstring \<Rightarrow> jsnum" where
  "signed_decimal s =
     (let (neg, r) = (case s of
                        [] \<Rightarrow> (False, s)
                      | c # cs \<Rightarrow>
                          if c = 0x2D then (True, cs)
                          else if c = 0x2B then (False, cs)
                          else (False, s))
      in if r = js ''Infinity'' then (if neg then NegInfinity else PosInfinity)
         else (case unsigned_decimal r of
                 None \<Rightarrow> NaN
               | Some q \<Rightarrow> Num (if neg then - q else q)))"

definition StringToNumber :: "jsstring \<Rightarrow> jsnum" where
  "StringToNumber s =
     (let t = trim s in
      if t = [] then Num 0
      else (case t of
              z # x # ds \<Rightarrow>
                if z = 0x30 \<and> (x = 0x78 \<or> x = 0x58) then radix_literal 16 ds
                else if z = 0x30 \<and> (x = 0x6F \<or> x = 0x4F) then radix_literal 8 ds
                else if z = 0x30 \<and> (x = 0x62 \<or> x = 0x42) then radix_literal 2 ds
                else signed_decimal t
            | _ \<Rightarrow> signed_decimal t))"

text \<open>
  \<open>Number(v)\<close> for a value read from a parsed response, \<open>None\<close> being \<open>undefined\<close>.
  An array or an object is first converted to its text.
\<close>

definition Number :: "(rat \<Rightarrow> jsstring) \<Rightarrow> json option \<Rightarrow> jsnum" where
  "Number ns v =
     (case v of
        None \<Rightarrow> NaN
      | Some JNull \<Rightarrow> Num 0
      | Some (JBool b) \<Rightarrow> Num (if b then 1 else 0)
      | Some (JNum r) \<Rightarrow> Num r
      | Some (JStr s) \<Rightarrow> StringToNumber s
      | Some (JArr xs) \<Rightarrow> StringToNumber (to_string ns (JArr xs))
      | Some (JObj kvs) \<Rightarrow> StringToNumber (to_string ns (JObj kvs)))"


text \<open>
  Reading a property, for the names this program reads (\<open>reviews\<close>, \<open>lineNumber\<close>,
  \<open>reviewComment\<close>), none of which is a built-in property of a string or an array or
  inherited from a prototype: \<open>null\<close> throws, an object yields its own property, every
  other value yields \<open>undefined\<close>.
\<close>

definition get_prop :: "json \<Rightarrow> jsstring \<Rightarrow> exn + json option" where
  "get_prop v k =
     (case v of
        JNull \<Rightarrow> Inl TypeError
      | JObj kvs \<Rightarrow> Inr (map_of kvs k)
      | _ \<Rightarrow> Inr None)"

definition truthy :: "json option \<Rightarrow> bool" where
  "truthy v =
     (case v of
        None \<Rightarrow> False
      | Some JNull \<Rightarrow> False
      | Some (JBool b) \<Rightarrow> b
      | Some (JNum r) \<Rightarrow> r \<noteq> 0
      | Some (JStr s) \<Rightarrow> s \<noteq> []
      | Some _ \<Rightarrow> True)"

definition isArray :: "json option \<Rightarrow> bool" where
  "isArray v = (case v of Some (JArr xs) \<Rightarrow> True | _ \<Rightarrow> False)"

section \<open>The program (\<open>src/main.ts\<close>)\<close>

subsection \<open>Data\<close>

record PRDetails =
  owner :: jsstring
  repo :: jsstring
  pull_number :: int
  title :: jsstring
  description :: jsstring

text \<open>The records of the diff parser: a change, a chunk (hunk) and a file.\<close>

record Change =
  ln :: "nat option"
  ln2 :: "nat option"
  content :: jsstring

record Chunk =
  content :: jsstring
  changes :: "Change list"

record File =
  to :: "jsstring option"
  chunks :: "Chunk list"

text \<open>
  One finding of the model, as \<open>getAIResponse\<close> returns it. The fields are whatever the
  parsed response holds (the source types them \<open>any\<close>); \<open>None\<close> is \<open>undefined\<close>.
\<close>

record Finding =
  lineNumber :: "json option"
  reviewComment :: json

record ReviewComment =
  body :: json
  path :: jsstring
  line :: jsnum

text \<open>A content block of a model response: a text block or a block of another type.\<close>

datatype block = TextBlock jsstring | OtherBlock

record EventData =
  action :: "json option"

subsection \<open>Effects\<close>

text \<open>
  What a run does to the outside: the lines it writes to the console, the two calls
  that change the pull request (recorded when the call is made, whatever its outcome) and
  the exit of the process. A computation yields the effects it performed, in order, and
  either the exception it threw (\<open>Inl\<close>) or its value.
\<close>

datatype logarg =
    S jsstring
  | L "jsstring list"
  | J json
  | E exn
  | Message exn
  | Stack exn
  | Env "jsstring option"

datatype effect =
    console_log "logarg list"
  | console_error "logarg list"
  | issues_createComment jsstring jsstring int jsstring
  | pulls_createReview jsstring jsstring int "ReviewComment list" jsstring
  | process_exit int

type_synonym 'a act = "effect list \<times> (exn + 'a)"

definition ret :: "'a \<Rightarrow> 'a act" where
  "ret x = ([], Inr x)"

definition emit :: "effect \<Rightarrow> unit act" where
  "emit ev = ([ev], Inr ())"

text \<open>\<open>await\<close> of a call whose outcome is given: a rejection is thrown.\<close>

definition await :: "exn + 'a \<Rightarrow> 'a act" where
  "await r = ([], r)"

definition bind :: "'a act \<Rightarrow> ('a \<Rightarrow> 'b act) \<Rightarrow> 'b act" where
  "bind m f =
     (case m of
        (t, Inl e) \<Rightarrow> (t, Inl e)
      | (t, Inr x) \<Rightarrow> (case f x of (t', r) \<Rightarrow> (t @ t', r)))"

text \<open>The effects that only write to the console.\<close>

definition is_console :: "effect \<Rightarrow> bool" where
  "is_console ev =
     (case ev of console_log a \<Rightarrow> True | console_error a \<Rightarrow> True | _ \<Rightarrow> False)"

definition is_review :: "effect \<Rightarrow> bool" where
  "is_review ev = (case ev of pulls_createReview a b c d e \<Rightarrow> True | _ \<Rightarrow> False)"

text \<open>
  Everything a run reads from outside the program: the libraries it calls
  (\<open>parse-diff\<close>, \<open>minimatch\<close>, the runtime's printing of doubles), its configuration, and
  the outcome of every call to the host, the model and the linter. \<open>instructions\<close> is the
  fixed text of the prompt template up to the file name. The \<open>n\<close>-th request to the model
  (counted from 0) with prompt \<open>p\<close> has outcome \<open>messages_create n p\<close>.
\<close>

record world =
  instructions :: jsstring
  num_to_string :: "rat \<Rightarrow> jsstring"
  toFixed2 :: "rat \<Rightarrow> jsstring"
  parseDiff :: "jsstring \<Rightarrow> exn + File list"
  minimatch :: "jsstring \<Rightarrow> jsstring \<Rightarrow> bool"
  exclude :: jsstring
  event_name :: "jsstring option"
  pr_details :: "exn + PRDetails"
  event_data :: "exn + EventData"
  pulls_get_diff :: "exn + jsstring option"
  compareCommits :: "exn + jsstring"
  messages_create :: "nat \<Rightarrow> jsstring \<Rightarrow> exn + block list"
  glob_py :: "exn + jsstring list"
  execAsync :: "jsstring \<Rightarrow> exn + jsstring \<times> jsstring"
  createComment_outcome :: "jsstring \<Rightarrow> exn + unit"
  createReview_outcome :: "ReviewComment list \<Rightarrow> exn + unit"

subsection \<open>The lint score\<close>

definition addPullRequestComment ::
  "world \<Rightarrow> jsstring \<Rightarrow> jsstring \<Rightarrow> int \<Rightarrow> jsstring \<Rightarrow> unit act" where
  "addPullRequestComment w own rep num bdy =
     bind (emit (issues_createComment own rep num bdy))
       (\<lambda>_. await (createComment_outcome w bdy))"

text \<open>
  The regular expression \<open>/Your code has been rated at (\d+\.\d+)/\<close> at the start of a
  text: the literal words, the longest run of digits, a dot, the longest run of digits,
  both runs non-empty (a shorter first run would be followed by a digit, not by the dot).
  The result is the text of the group.
\<close>

definition match_rating_here :: "jsstring \<Rightarrow> jsstring option" where
  "match_rating_here s =
     (case strip_prefix (js ''Your code has been rated at '') s of
        None \<Rightarrow> None
      | Some r \<Rightarrow>
          (let d1 = takeWhile is_digit r in
           case dropWhile is_digit r of
             [] \<Rightarrow> None
           | c # cs \<Rightarrow>
               (let d2 = takeWhile is_digit cs in
                if d1 \<noteq> [] \<and> c = 0x2E \<and> d2 \<noteq> [] then Some (d1 @ [0x2E] @ d2) else None)))"

text \<open>\<open>String.prototype.match\<close>: the leftmost position where the expression matches.\<close>

fun match_rating :: "jsstring \<Rightarrow> jsstring option" where
  "match_rating [] = match_rating_here []"
| "match_rating (c # cs) =
     (case match_rating_here (c # cs) of
        Some g \<Rightarrow> Some g
      | None \<Rightarrow> match_rating cs)"

text \<open>\<open>parseFloat\<close> on the text of the group, which is \<open>digits . digits\<close>.\<close>

definition parseFloat_group :: "jsstring \<Rightarrow> rat" where
  "parseFloat_group g =
     (let d1 = takeWhile is_digit g; d2 = takeWhile is_digit (drop 1 (dropWhile is_digit g))
      in of_nat (digits_val d1) + of_nat (digits_val d2) / 10 ^ length d2)"

definition parsePylint :: "jsstring \<Rightarrow> rat" where
  "parsePylint pylintOutput =
     (case match_rating pylintOutput of
        Some g \<Rightarrow> parseFloat_group g
      | None \<Rightarrow> 0)"

definition pylint_command :: "jsstring list \<Rightarrow> jsstring" where
  "pylint_command files =
     js ''pylint '' @ join [0x20] files @ js '' --exit-zero  --output-format=text''"

definition getPylintScore :: "world \<Rightarrow> rat act" where
  "getPylintScore w =
     bind (await (glob_py w)) (\<lambda>files.
     bind (emit (console_log [L files])) (\<lambda>_.
       if length files = 0 then
         bind (emit (console_log [S (js ''No Python files found in the repository.'')]))
           (\<lambda>_. ret 10)
       else
         bind (await (execAsync w (pylint_command files))) (\<lambda>(stdout, stderr).
         bind (if stderr \<noteq> [] then emit (console_error [S (js ''Pylint error:''), S stderr])
               else ret ())
           (\<lambda>_. ret (parsePylint stdout)))))"

subsection \<open>The prompt\<close>

text \<open>
  A change is printed as \<open>c.ln ? c.ln : c.ln2\<close>, a blank and its text; a missing number
  prints as \<open>undefined\<close>.
\<close>

definition render_change :: "Change \<Rightarrow> jsstring" where
  "render_change c =
     (case (case ln c of
              Some n \<Rightarrow> if n \<noteq> 0 then Some n else ln2 c
            | None \<Rightarrow> ln2 c) of
        None \<Rightarrow> js ''undefined''
      | Some n \<Rightarrow> nat_to_string n)
     @ [0x20] @ Change.content c"

definition createPrompt :: "world \<Rightarrow> File \<Rightarrow> Chunk \<Rightarrow> PRDetails \<Rightarrow> jsstring" where
  \<open>createPrompt w file chunk prDetails =
     instructions w
     @ (case to file of None \<Rightarrow> js ''undefined'' | Some p \<Rightarrow> p)
     @ js ''" y ten en cuenta el t'' @ [0xED] @ js ''tulo y la descripci'' @ [0xF3]
     @ js ''n del pull request al redactar tu respuesta.'' @ [0x0A, 0x0A]
     @ js ''Pull request title: '' @ title prDetails @ [0x0A]
     @ js ''Pull request description:'' @ [0x0A, 0x0A]
     @ js ''---'' @ [0x0A] @ description prDetails @ [0x0A] @ js ''---'' @ [0x0A, 0x0A]
     @ js ''Git diff to review:'' @ [0x0A, 0x0A]
     @ [0x60, 0x60, 0x60] @ js ''diff'' @ [0x0A] @ Chunk.content chunk @ [0x0A]
     @ join [0x0A] (map render_change (changes chunk)) @ [0x0A]
     @ [0x60, 0x60, 0x60, 0x0A]\<close>

subsection \<open>The model client: \<open>getAIResponse\<close>\<close>

text \<open>
  The recovery pass on a text that failed to parse: six replacements in the order of the
  source. The first removes the code units 0x00-0x1F and 0x7F-0x9F.
\<close>

definition replace_unit :: "jschar \<Rightarrow> jsstring \<Rightarrow> jsstring \<Rightarrow> jsstring" where
  "replace_unit c rep s = concat (map (\<lambda>x. if x = c then rep else [x]) s)"

text \<open>Every backslash followed by an apostrophe becomes the apostrophe, left to right.\<close>

fun replace_escaped_apostrophe :: "jsstring \<Rightarrow> jsstring" where
  "replace_escaped_apostrophe (a # b # cs) =
     (if a = 0x5C \<and> b = 0x27 then 0x27 # replace_escaped_apostrophe cs
      else a # replace_escaped_apostrophe (b # cs))"
| "replace_escaped_apostrophe cs = cs"

definition cleanContent :: "jsstring \<Rightarrow> jsstring" where
  "cleanContent txt =
     replace_escaped_apostrophe
       (replace_unit 0x22 [0x5C, 0x22]
         (replace_unit 0x0C [0x5C, 0x66]
           (replace_unit 0x09 [0x5C, 0x74]
             (replace_unit 0x0D [0x5C, 0x72]
               (replace_unit 0x0A [0x5C, 0x6E]
                 (filter (\<lambda>c. \<not> (c \<le> 0x1F \<or> (0x7F \<le> c \<and> c \<le> 0x9F))) txt))))))"

text \<open>
  A text in which every double quote comes right after a backslash; \<open>b\<close> tells whether
  the character before the text is a backslash.
\<close>

fun escaped_quotes :: "bool \<Rightarrow> jsstring \<Rightarrow> bool" where
  "escaped_quotes b [] = True"
| "escaped_quotes b (c # cs) = ((c = 0x22 \<longrightarrow> b) \<and> escaped_quotes (c = 0x5C) cs)"

text \<open>
  \<open>JSON.parse(JSON.stringify(c))\<close>, the defensive pass over a \<open>reviewComment\<close>:
  \<open>JSON.stringify(undefined)\<close> is \<open>undefined\<close>, and \<open>JSON.parse(undefined)\<close> throws.
  One element of \<open>reviews\<close> becomes a finding: its \<open>lineNumber\<close> as it is, its
  \<open>reviewComment\<close> after that pass.
\<close>

definition reparse :: "world \<Rightarrow> json option \<Rightarrow> exn + json" where
  "reparse w c =
     (case JSON_stringify (num_to_string w) c of
        None \<Rightarrow> Inl SyntaxError
      | Some t \<Rightarrow>
          (case JSON_parse t of
             None \<Rightarrow> Inl SyntaxError
           | Some v \<Rightarrow> Inr v))"

definition sanitize_review :: "world \<Rightarrow> json \<Rightarrow> exn + Finding" where
  "sanitize_review w review =
     (case get_prop review (js ''lineNumber'') of
        Inl e \<Rightarrow> Inl e
      | Inr l \<Rightarrow>
          (case get_prop review (js ''reviewComment'') of
             Inl e \<Rightarrow> Inl e
           | Inr c \<Rightarrow>
               (case reparse w c of
                  Inl e \<Rightarrow> Inl e
                | Inr v \<Rightarrow> Inr \<lparr>lineNumber = l, reviewComment = v\<rparr>)))"

fun sanitize_reviews :: "world \<Rightarrow> json list \<Rightarrow> exn + Finding list" where
  "sanitize_reviews w [] = Inr []"
| "sanitize_reviews w (r # rs) =
     (case sanitize_review w r of
        Inl e \<Rightarrow> Inl e
      | Inr f \<Rightarrow>
          (case sanitize_reviews w rs of
             Inl e \<Rightarrow> Inl e
           | Inr fs \<Rightarrow> Inr (f # fs)))"

text \<open>The part of the \<open>try\<close> block after the response text has been parsed.\<close>

definition reviews_of :: "world \<Rightarrow> json \<Rightarrow> Finding list option act" where
  "reviews_of w parsedContent =
     bind (await (get_prop parsedContent (js ''reviews''))) (\<lambda>reviews.
       if \<not> truthy reviews \<or> \<not> isArray reviews then
         bind (emit (console_error
                 [S (js ''Parsed content does not contain a 'reviews' array:''), J parsedContent]))
           (\<lambda>_. ret None)
       else
         (case reviews of
            Some (JArr rs) \<Rightarrow>
              bind (await (sanitize_reviews w rs)) (\<lambda>sanitizedReviews. ret (Some sanitizedReviews))
          | _ \<Rightarrow> ret None))"

text \<open>
  The \<open>try\<close> block, given the outcome of the request. \<open>content[0]\<close> of an empty
  content list is \<open>undefined\<close>, and reading its \<open>type\<close> throws.
\<close>

definition getAIResponse_try :: "world \<Rightarrow> exn + block list \<Rightarrow> Finding list option act" where
  "getAIResponse_try w outcome =
     bind (await outcome) (\<lambda>response.
       case response of
         [] \<Rightarrow> await (Inl TypeError)
       | b # _ \<Rightarrow>
           (let txt = (case b of TextBlock t \<Rightarrow> t | OtherBlock \<Rightarrow> []) in
            case JSON_parse txt of
              Some parsedContent \<Rightarrow> reviews_of w parsedContent
            | None \<Rightarrow>
                bind (emit (console_error [S (js ''Error parsing initial JSON:''), E SyntaxError]))
                  (\<lambda>_.
                bind (emit (console_log [S (js ''Cleaned content:''), S (cleanContent txt)]))
                  (\<lambda>_.
                  case JSON_parse (cleanContent txt) of
                    Some parsedContent \<Rightarrow> reviews_of w parsedContent
                  | None \<Rightarrow>
                      bind (emit (console_error
                              [S (js ''Error parsing cleaned JSON:''), E SyntaxError]))
                        (\<lambda>_.
                      bind (emit (console_error
                              [S (js ''Cleaned content that failed to parse:''),
                               S (cleanContent txt)]))
                        (\<lambda>_. ret None))))))"

text \<open>
  The function: the \<open>try\<close> block and its \<open>catch\<close>. Every exception of the model is an
  \<open>Error\<close> object, so its message and stack are logged too.
\<close>

definition getAIResponse :: "world \<Rightarrow> nat \<Rightarrow> jsstring \<Rightarrow> Finding list option act" where
  "getAIResponse w n prompt =
     (case getAIResponse_try w (messages_create w n prompt) of
        (t, Inl error) \<Rightarrow>
          (t @ [console_error [S (js ''Error in API call or processing:''), E error],
                console_error [S (js ''Error message:''), Message error],
                console_error [S (js ''Error stack:''), Stack error]],
           Inr None)
      | (t, Inr r) \<Rightarrow> (t, Inr r))"

subsection \<open>Comments and the review\<close>

text \<open>\<open>!file.to\<close> holds for a missing and for an empty target path.\<close>

definition createComment :: "world \<Rightarrow> File \<Rightarrow> Chunk \<Rightarrow> Finding list \<Rightarrow> ReviewComment list" where
  "createComment w file chunk aiResponses =
     concat (map (\<lambda>aiResponse.
       case to file of
         None \<Rightarrow> []
       | Some p \<Rightarrow>
           if p = [] then []
           else [\<lparr>body = reviewComment aiResponse, path = p,
                  line = Number (num_to_string w) (lineNumber aiResponse)\<rparr>]) aiResponses)"

text \<open>
  The two loops of \<open>analyzeCode\<close>. The number of requests made so far is threaded
  through, next to the comments collected.
\<close>

fun analyze_chunks ::
  "world \<Rightarrow> PRDetails \<Rightarrow> File \<Rightarrow> nat \<Rightarrow> Chunk list \<Rightarrow> (ReviewComment list \<times> nat) act" where
  "analyze_chunks w prDetails file n [] = ret ([], n)"
| "analyze_chunks w prDetails file n (chunk # rest) =
     bind (getAIResponse w n (createPrompt w file chunk prDetails)) (\<lambda>aiResponse.
     bind (analyze_chunks w prDetails file (Suc n) rest) (\<lambda>(comments, n').
       ret ((case aiResponse of
               None \<Rightarrow> []
             | Some rs \<Rightarrow> createComment w file chunk rs) @ comments, n')))"

fun analyze_files ::
  "world \<Rightarrow> PRDetails \<Rightarrow> nat \<Rightarrow> File list \<Rightarrow> (ReviewComment list \<times> nat) act" where
  "analyze_files w prDetails n [] = ret ([], n)"
| "analyze_files w prDetails n (file # rest) =
     (if to file = Some (js ''/dev/null'') then analyze_files w prDetails n rest
      else
        bind (analyze_chunks w prDetails file n (chunks file)) (\<lambda>(new, n').
        bind (analyze_files w prDetails n' rest) (\<lambda>(comments, n'').
          ret (new @ comments, n''))))"

definition analyzeCode :: "world \<Rightarrow> File list \<Rightarrow> PRDetails \<Rightarrow> ReviewComment list act" where
  "analyzeCode w parsedDiff prDetails =
     bind (analyze_files w prDetails 0 parsedDiff) (\<lambda>(comments, _). ret comments)"

definition createReviewComment ::
  "world \<Rightarrow> jsstring \<Rightarrow> jsstring \<Rightarrow> int \<Rightarrow> ReviewComment list \<Rightarrow> unit act" where
  "createReviewComment w own rep num comments =
     bind (emit (pulls_createReview own rep num comments (js ''COMMENT'')))
       (\<lambda>_. await (createReview_outcome w comments))"

subsection \<open>The orchestrator: \<open>main\<close>\<close>

definition excludePatterns :: "world \<Rightarrow> jsstring list" where
  "excludePatterns w = map trim (split_on 0x2C (exclude w))"

definition filteredDiff :: "world \<Rightarrow> File list \<Rightarrow> File list" where
  "filteredDiff w parsedDiff =
     filter (\<lambda>file.
       \<not> list_ex (\<lambda>pattern.
           minimatch w (case to file of None \<Rightarrow> [] | Some p \<Rightarrow> p) pattern)
         (excludePatterns w)) parsedDiff"

text \<open>The text of the comment that reports the lint score.\<close>

definition score_comment :: "world \<Rightarrow> rat \<Rightarrow> jsstring" where
  "score_comment w pylintScore =
     js ''The pylint score for this pull request is: '' @ toFixed2 w pylintScore @ js ''/10''"

text \<open>The run from the test \<open>if (!diff)\<close> on, given the pull request and the diff.\<close>

definition review_diff :: "world \<Rightarrow> PRDetails \<Rightarrow> jsstring option \<Rightarrow> unit act" where
  "review_diff w prDetails diff =
     (case diff of
        None \<Rightarrow> emit (console_log [S (js ''No diff found'')])
      | Some d \<Rightarrow>
          if d = [] then emit (console_log [S (js ''No diff found'')])
          else
            bind (await (parseDiff w d)) (\<lambda>parsedDiff.
            bind (analyzeCode w (filteredDiff w parsedDiff) prDetails) (\<lambda>comments.
            bind (getPylintScore w) (\<lambda>pylintScore.
            bind (addPullRequestComment w (owner prDetails) (repo prDetails)
                    (pull_number prDetails)
                    (score_comment w pylintScore))
              (\<lambda>_.
              if length comments > 0 then
                createReviewComment w (owner prDetails) (repo prDetails)
                  (pull_number prDetails) comments
              else ret ())))))"

definition main :: "world \<Rightarrow> unit act" where
  "main w =
     bind (await (pr_details w)) (\<lambda>prDetails.
     bind (await (event_data w)) (\<lambda>eventData.
       if action eventData = Some (JStr (js ''opened'')) then
         bind (await (pulls_get_diff w)) (\<lambda>diff. review_diff w prDetails diff)
       else if action eventData = Some (JStr (js ''synchronize'')) then
         bind (await (compareCommits w)) (\<lambda>diff. review_diff w prDetails (Some diff))
       else emit (console_log [S (js ''Unsupported event:''), Env (event_name w)])))"

text \<open>
  The process: \<open>main().catch(...)\<close>. A rejection of \<open>main\<close> is logged and the process
  exits with status 1. The result is what the run did.
\<close>

definition run :: "world \<Rightarrow> effect list" where
  "run w =
     (case main w of
        (t, Inl error) \<Rightarrow> t @ [console_error [S (js ''Error:''), E error], process_exit 1]
      | (t, Inr _) \<Rightarrow> t)"

subsection \<open>A concrete world\<close>

text \<open>
  A stand-in for the glob matcher, enough for examples: the empty pattern matches the
  empty path only, a pattern \<open>*suffix\<close> matches the paths ending in the suffix, any other
  pattern matches itself.
\<close>

definition demo_minimatch :: "jsstring \<Rightarrow> jsstring \<Rightarrow> bool" where
  "demo_minimatch p pattern =
     (case pattern of
        [] \<Rightarrow> p = []
      | c # cs \<Rightarrow> if c = 0x2A then suffix cs p else p = pattern)"

text \<open>
  Stand-ins for the runtime's printing of a number: exact on the non-negative integers,
  and two decimals, rounded half up, for a non-negative score.
\<close>

definition demo_toFixed2 :: "rat \<Rightarrow> jsstring" where
  "demo_toFixed2 q =
     (let n = nat \<lfloor>q * 100 + 1 / 2\<rfloor>
      in nat_to_string (n div 100) @ [0x2E] @ nat_to_string (n div 10 mod 10)
         @ nat_to_string (n mod 10))"

definition demo_file :: "jsstring option \<Rightarrow> File" where
  "demo_file t = \<lparr>to = t, chunks = [\<lparr>content = js ''@@ -1 +1 @@'', changes = []\<rparr>]\<rparr>"

definition demo_pr :: PRDetails where
  "demo_pr = \<lparr>owner = js ''o'', repo = js ''r'', pull_number = 1,
               title = js ''t'', description = js ''d''\<rparr>"

text \<open>
  An \<open>opened\<close> event on a pull request whose diff touches \<open>app.ts\<close>; the model answers
  every request with the text \<open>r\<close>; the repository holds \<open>a.py\<close> and the linter reports
  \<open>lint\<close>; every call to the host succeeds.
\<close>

definition demo_world :: "jsstring \<Rightarrow> (exn + jsstring \<times> jsstring) \<Rightarrow> world" where
  \<open>demo_world r lint =
     \<lparr>instructions = js ''Review the file "'',
      num_to_string = (\<lambda>q. if q = of_int \<lfloor>q\<rfloor> \<and> 0 \<le> q then nat_to_string (nat \<lfloor>q\<rfloor>)
                               else js ''0.5''),
      toFixed2 = demo_toFixed2,
      parseDiff = (\<lambda>d. Inr [demo_file (Some (js ''app.ts''))]),
      minimatch = demo_minimatch,
      exclude = js ''*.md'',
      event_name = Some (js ''pull_request''),
      pr_details = Inr demo_pr,
      event_data = Inr \<lparr>action = Some (JStr (js ''opened''))\<rparr>,
      pulls_get_diff = Inr (Some (js ''diff'')),
      compareCommits = Inr (js ''diff''),
      messages_create = (\<lambda>n p. Inr [TextBlock r]),
      glob_py = Inr [js ''a.py''],
      execAsync = (\<lambda>c. lint),
      createComment_outcome = (\<lambda>b. Inr ()),
      createReview_outcome = (\<lambda>c. Inr ())\<rparr>\<close>

text \<open>A response of the model with one finding, on line 12.\<close>

definition demo_response :: jsstring where
  \<open>demo_response = js ''{"reviews":[{"lineNumber":"12","reviewComment":"Use const"}]}''\<close>

section \<open>Basic facts\<close>

subsection \<open>Computations and their effects\<close>

lemma bind_Inl [simp]: "bind (t, Inl e) f = (t, Inl e)"
  by (simp add: bind_def)

lemma bind_Inr [simp]: "bind (t, Inr x) f = (t @ fst (f x), snd (f x))"
  by (simp add: bind_def split: prod.splits)

lemma bind_await [simp]: "bind (await r) f = (case r of Inl e \<Rightarrow> ([], Inl e) | Inr x \<Rightarrow> f x)"
  by (simp add: await_def bind_def split: sum.splits prod.splits)

lemma bind_emit [simp]: "bind (emit ev) f = (ev # fst (f ()), snd (f ()))"
  by (simp add: emit_def)

lemma bind_ret [simp]: "bind (ret x) f = f x"
  by (simp add: ret_def)

lemma isArray_iff: "isArray v \<longleftrightarrow> (\<exists>rs. v = Some (JArr rs))"
  by (auto simp: isArray_def split: option.splits json.splits)

lemma reviews_of_console:
  assumes "reviews_of w v = (t, r)"
  shows "list_all is_console t"
proof (cases "get_prop v (js ''reviews'')")
  case (Inl e)
  with assms show ?thesis by (auto simp: reviews_of_def)
next
  case (Inr reviews)
  show ?thesis
  proof (cases "isArray reviews")
    case False
    with Inr assms show ?thesis
      by (auto simp: reviews_of_def ret_def is_console_def)
  next
    case True
    then obtain rs where rs: "reviews = Some (JArr rs)"
      by (auto simp: isArray_iff)
    with Inr assms show ?thesis
      by (cases "sanitize_reviews w rs")
         (auto simp: reviews_of_def ret_def truthy_def isArray_def)
  qed
qed

lemma getAIResponse_try_console:
  assumes "getAIResponse_try w outcome = (t, r)"
  shows "list_all is_console t"
proof (cases outcome)
  case (Inl e)
  with assms show ?thesis by (auto simp: getAIResponse_try_def)
next
  case (Inr resp)
  show ?thesis
  proof (cases resp)
    case Nil
    with Inr assms show ?thesis by (auto simp: getAIResponse_try_def await_def)
  next
    case (Cons b bs)
    define tx where "tx = (case b of TextBlock t \<Rightarrow> t | OtherBlock \<Rightarrow> [])"
    show ?thesis
    proof (cases "JSON_parse tx")
      case (Some v)
      with Inr Cons assms have "reviews_of w v = (t, r)"
        by (simp add: getAIResponse_try_def tx_def)
      then show ?thesis by (rule reviews_of_console)
    next
      case None
      show ?thesis
      proof (cases "JSON_parse (cleanContent tx)")
        case (Some v)
        obtain t' r' where rv: "reviews_of w v = (t', r')"
          by (cases "reviews_of w v")
        from reviews_of_console [OF rv] have "list_all is_console t'" .
        with Inr Cons None Some rv assms show ?thesis
          by (auto simp: getAIResponse_try_def tx_def is_console_def Let_def)
      next
        case None2: None
        with Inr Cons None assms show ?thesis
          by (auto simp: getAIResponse_try_def tx_def is_console_def ret_def Let_def)
      qed
    qed
  qed
qed

lemma getAIResponse_total:
  "\<exists>t r. getAIResponse w n p = (t, Inr r) \<and> list_all is_console t"
proof (cases "getAIResponse_try w (messages_create w n p)")
  case (Pair t r)
  from getAIResponse_try_console [OF Pair] have "list_all is_console t" .
  with Pair show ?thesis
    by (cases r) (simp_all add: getAIResponse_def is_console_def)
qed

lemma createComment_path:
  "c \<in> set (createComment w file chunk rs) \<Longrightarrow> to file = Some (path c) \<and> path c \<noteq> []"
  by (auto simp: createComment_def split: option.splits if_splits)

lemma analyze_chunks_total:
  "\<exists>t cs n'. analyze_chunks w pr file n chs = (t, Inr (cs, n'))
     \<and> list_all is_console t
     \<and> (\<forall>c \<in> set cs. to file = Some (path c) \<and> path c \<noteq> [])"
proof (induction chs arbitrary: n)
  case Nil
  show ?case by (simp add: ret_def)
next
  case (Cons ch chs)
  obtain t1 r where ai: "getAIResponse w n (createPrompt w file ch pr) = (t1, Inr r)"
    and c1: "list_all is_console t1"
    using getAIResponse_total by blast
  obtain t2 cs n' where rec: "analyze_chunks w pr file (Suc n) chs = (t2, Inr (cs, n'))"
    and c2: "list_all is_console t2"
    and p2: "\<forall>c \<in> set cs. to file = Some (path c) \<and> path c \<noteq> []"
    using Cons.IH [of "Suc n"] by blast
  show ?case
    using c1 c2 p2 createComment_path [of _ w "file" ch]
    by (cases r) (auto simp: ai rec ret_def)
qed

lemma analyze_files_total:
  "\<exists>t cs n'. analyze_files w pr n files = (t, Inr (cs, n'))
     \<and> list_all is_console t
     \<and> (\<forall>c \<in> set cs. path c \<noteq> js ''/dev/null'' \<and> path c \<noteq> []
            \<and> (\<exists>f \<in> set files. to f = Some (path c)))"
proof (induction files arbitrary: n)
  case Nil
  show ?case by (simp add: ret_def)
next
  case (Cons fl files)
  show ?case
  proof (cases "to fl = Some (js ''/dev/null'')")
    case True
    with Cons.IH [of n] show ?thesis by auto
  next
    case False
    obtain t1 new n1 where ch: "analyze_chunks w pr fl n (chunks fl) = (t1, Inr (new, n1))"
      and c1: "list_all is_console t1"
      and p1: "\<forall>c \<in> set new. to fl = Some (path c) \<and> path c \<noteq> []"
      using analyze_chunks_total by blast
    obtain t2 cs n2 where rec: "analyze_files w pr n1 files = (t2, Inr (cs, n2))"
      and c2: "list_all is_console t2"
      and p2: "\<forall>c \<in> set cs. path c \<noteq> js ''/dev/null'' \<and> path c \<noteq> []
            \<and> (\<exists>f \<in> set files. to f = Some (path c))"
      using Cons.IH [of n1] by blast
    from p1 False have p1': "\<forall>c \<in> set new. path c \<noteq> js ''/dev/null''"
      by auto
    show ?thesis
      using False c1 c2 p1 p1' p2 by (auto simp: ch rec ret_def)
  qed
qed

lemma analyzeCode_total:
  "\<exists>t comments. analyzeCode w files pr = (t, Inr comments)
     \<and> list_all is_console t
     \<and> (\<forall>c \<in> set comments. path c \<noteq> js ''/dev/null'' \<and> path c \<noteq> []
            \<and> (\<exists>f \<in> set files. to f = Some (path c)))"
proof -
  obtain t cs n' where "analyze_files w pr 0 files = (t, Inr (cs, n'))"
      "list_all is_console t"
      "\<forall>c \<in> set cs. path c \<noteq> js ''/dev/null'' \<and> path c \<noteq> []
            \<and> (\<exists>f \<in> set files. to f = Some (path c))"
    using analyze_files_total by blast
  then show ?thesis
    by (simp add: analyzeCode_def ret_def)
qed

subsection \<open>Parsing a quoted string\<close>

lemma hex_val_hex_digit: "d < 16 \<Longrightarrow> hex_val (hex_digit d) = Some d"
proof -
  assume "d < 16"
  then have "d = 0 \<or> d = 1 \<or> d = 2 \<or> d = 3 \<or> d = 4 \<or> d = 5 \<or> d = 6 \<or> d = 7 \<or> d = 8
     \<or> d = 9 \<or> d = 10 \<or> d = 11 \<or> d = 12 \<or> d = 13 \<or> d = 14 \<or> d = 15"
    by arith
  then show ?thesis
    by (elim disjE) (simp_all add: hex_val_def hex_digit_def)
qed

lemma hex_digits_value:
  "((n div 4096 * 16 + n div 256 mod 16) * 16 + n div 16 mod 16) * 16 + n mod 16 = (n::nat)"
proof -
  have a: "n div 4096 = n div 256 div 16" "n div 256 = n div 16 div 16"
    by (simp_all add: div_mult2_eq [symmetric])
  have "n div 4096 * 16 + n div 256 mod 16 = n div 256"
    unfolding a(1) by simp
  moreover have "n div 256 * 16 + n div 16 mod 16 = n div 16"
    unfolding a(2) by simp
  ultimately show ?thesis by simp
qed

lemma hex4_digits:
  "hex4 (hex_digit (unat c div 4096)) (hex_digit (unat c div 256 mod 16))
        (hex_digit (unat c div 16 mod 16)) (hex_digit (unat c mod 16)) = Some c"
proof -
  have "unat c < 2 ^ LENGTH(16)"
    by (rule unsigned_less)
  then have "unat c < 65536"
    by simp
  then have d1: "unat c div 4096 < 16"
    by (simp add: less_mult_imp_div_less)
  have v: "hex_val (hex_digit (unat c div 4096)) = Some (unat c div 4096)"
      "hex_val (hex_digit (unat c div 256 mod 16)) = Some (unat c div 256 mod 16)"
      "hex_val (hex_digit (unat c div 16 mod 16)) = Some (unat c div 16 mod 16)"
      "hex_val (hex_digit (unat c mod 16)) = Some (unat c mod 16)"
    by (simp_all add: hex_val_hex_digit d1)
  have "hex4 (hex_digit (unat c div 4096)) (hex_digit (unat c div 256 mod 16))
        (hex_digit (unat c div 16 mod 16)) (hex_digit (unat c mod 16)) = Some (of_nat (unat c))"
    unfolding hex4_def v by (simp only: hex_digits_value prod.case option.case)
  then show ?thesis
    by simp
qed

lemma parse_chars_unicode_escape:
  "parse_chars (unicode_escape c @ rest) = map_option (apfst ((#) c)) (parse_chars rest)"
  by (simp add: unicode_escape_def hex4_digits)

lemma parse_chars_quote_unit:
  "parse_chars (quote_unit c @ rest) = map_option (apfst ((#) c)) (parse_chars rest)"
  by (simp add: quote_unit_def parse_chars_unicode_escape unescape_def)

lemma surrogate_plain: "0xD800 \<le> (c::jschar) \<Longrightarrow> c \<noteq> 0x22 \<and> c \<noteq> 0x5C \<and> \<not> c < 0x20"
  by (auto simp: word_le_nat_alt word_less_nat_alt)

lemma parse_chars_pair:
  assumes "is_high_surrogate c" and "is_low_surrogate d"
  shows "parse_chars (c # d # rest) = map_option (apfst (\<lambda>s. c # d # s)) (parse_chars rest)"
proof -
  have c: "c \<noteq> 0x22 \<and> c \<noteq> 0x5C \<and> \<not> c < 0x20"
    using assms(1) by (intro surrogate_plain) (simp add: is_high_surrogate_def)
  have "(0xD800::jschar) \<le> 0xDC00"
    by simp
  with assms(2) have "0xD800 \<le> d"
    unfolding is_low_surrogate_def by (meson order_trans)
  then have d: "d \<noteq> 0x22 \<and> d \<noteq> 0x5C \<and> \<not> d < 0x20"
    by (rule surrogate_plain)
  show ?thesis
    using c d by (cases "parse_chars rest") auto
qed

lemma parse_chars_quote_units:
  "parse_chars (quote_units s @ 0x22 # r) = Some (s, r)"
proof (induction s rule: quote_units.induct)
  case 1
  show ?case by simp
next
  case (2 c)
  show ?case
    using parse_chars_quote_unit [of c "0x22 # r"] by simp
next
  case (3 c d ds)
  show ?case
  proof (cases "is_high_surrogate c \<and> is_low_surrogate d")
    case True
    then have "quote_units (c # d # ds) = c # d # quote_units ds"
      by simp
    with True 3 show ?thesis
      by (simp add: parse_chars_pair del: parse_chars.simps)
  next
    case False
    then have "quote_units (c # d # ds) = quote_unit c @ quote_units (d # ds)"
      by auto
    with False 3 show ?thesis
      using parse_chars_quote_unit [of c "quote_units (d # ds) @ 0x22 # r"]
      by (simp del: parse_chars.simps quote_units.simps)
  qed
qed

lemma JSON_parse_quote: "JSON_parse (quote s) = Some (JStr s)"
proof -
  have "skip_ws (quote s) = 0x22 # quote_units s @ [0x22]"
    by (simp add: quote_def skip_ws_def is_json_ws_def)
  then have "parse_value (quote s) = Some (JStr s, [])"
    using parse_chars_quote_units [of s "[]"]
    by (subst parse_value.simps) simp
  then show ?thesis
    by (simp add: JSON_parse_def skip_ws_def)
qed


subsection \<open>The model client\<close>

lemma getAIResponse_snd:
  "snd (getAIResponse w n p) =
     (case snd (getAIResponse_try w (messages_create w n p)) of
        Inl e \<Rightarrow> Inr None
      | Inr r \<Rightarrow> Inr r)"
  by (cases "getAIResponse_try w (messages_create w n p)")
     (simp add: getAIResponse_def split: sum.splits)

lemma getAIResponse_try_rejected: "getAIResponse_try w (Inl e) = ([], Inl e)"
  by (simp add: getAIResponse_try_def)

lemma getAIResponse_try_parsed:
  "JSON_parse tx = Some v \<Longrightarrow>
   getAIResponse_try w (Inr (TextBlock tx # bs)) = reviews_of w v"
  by (simp add: getAIResponse_try_def)

lemma getAIResponse_try_recovered:
  "JSON_parse tx = None \<Longrightarrow> JSON_parse (cleanContent tx) = Some v \<Longrightarrow>
   snd (getAIResponse_try w (Inr (TextBlock tx # bs))) = snd (reviews_of w v)"
  by (simp add: getAIResponse_try_def)

lemma getAIResponse_try_unparsable:
  "JSON_parse tx = None \<Longrightarrow> JSON_parse (cleanContent tx) = None \<Longrightarrow>
   snd (getAIResponse_try w (Inr (TextBlock tx # bs))) = Inr None"
  by (simp add: getAIResponse_try_def ret_def)

lemma reviews_of_no_array:
  assumes "\<forall>rs. get_prop v (js ''reviews'') \<noteq> Inr (Some (JArr rs))"
  shows "snd (reviews_of w v) = Inr None \<or> (\<exists>e. snd (reviews_of w v) = Inl e)"
proof (cases "get_prop v (js ''reviews'')")
  case (Inl e)
  then show ?thesis by (simp add: reviews_of_def)
next
  case (Inr reviews)
  with assms have "\<not> isArray reviews"
    by (auto simp: isArray_iff)
  with Inr show ?thesis
    by (simp add: reviews_of_def ret_def)
qed




subsection \<open>The parser consumes what it reads\<close>

lemma strip_prefix_Some: "strip_prefix p s = Some r \<Longrightarrow> s = p @ r"
  by (induction p s rule: strip_prefix.induct) (auto split: if_splits)

lemma last_takeWhile: "takeWhile P xs \<noteq> [] \<Longrightarrow> P (last (takeWhile P xs))"
  using last_in_set set_takeWhileD by metis

lemma ends_in_digit_takeWhile:
  "takeWhile is_digit s \<noteq> [] \<Longrightarrow> ends_in_digit s (dropWhile is_digit s)"
  unfolding ends_in_digit_def
  by (rule exI [of _ "takeWhile is_digit s"]) (simp add: last_takeWhile)

lemma ends_in_digit_Cons: "ends_in_digit s r \<Longrightarrow> ends_in_digit (c # s) r"
  unfolding ends_in_digit_def by (metis append_Cons last_ConsR list.distinct(1))

lemma ends_in_digit_trans: "ends_in_digit s r \<Longrightarrow> ends_in_digit r u \<Longrightarrow> ends_in_digit s u"
  unfolding ends_in_digit_def
  by (metis append_assoc append_is_Nil_conv last_appendR)

lemma parse_int_part_consumed: "parse_int_part s = Some (n, r) \<Longrightarrow> ends_in_digit s r"
proof -
  assume h: "parse_int_part s = Some (n, r)"
  then obtain c cs where s: "s = c # cs" by (cases s) (auto simp: parse_int_part_def)
  show ?thesis
  proof (cases "c = 0x30")
    case True
    with h s have "r = cs" by (simp add: parse_int_part_def)
    with s True show ?thesis
      unfolding ends_in_digit_def by (intro exI [of _ "[c]"]) (simp add: is_digit_def)
  next
    case False
    with h s have d: "is_digit c" and r: "r = dropWhile is_digit s"
      by (auto simp: parse_int_part_def split: if_splits)
    from d s have "takeWhile is_digit s \<noteq> []" by simp
    with r show ?thesis by (simp add: ends_in_digit_takeWhile)
  qed
qed

lemma parse_frac_part_consumed:
  "parse_frac_part s = Some (f, r) \<Longrightarrow> r = s \<or> ends_in_digit s r"
proof -
  assume h: "parse_frac_part s = Some (f, r)"
  show ?thesis
  proof (cases s)
    case Nil
    with h show ?thesis by (simp add: parse_frac_part_def)
  next
    case (Cons c cs)
    show ?thesis
    proof (cases "c = 0x2E")
      case False
      with h Cons show ?thesis by (simp add: parse_frac_part_def)
    next
      case True
      with h Cons have "takeWhile is_digit cs \<noteq> []" and "r = dropWhile is_digit cs"
        by (auto simp: parse_frac_part_def Let_def split: if_splits)
      then have "ends_in_digit cs r" by (simp add: ends_in_digit_takeWhile)
      with Cons show ?thesis by (simp add: ends_in_digit_Cons)
    qed
  qed
qed

lemma parse_exp_part_consumed:
  "parse_exp_part s = Some (e, r) \<Longrightarrow> r = s \<or> ends_in_digit s r"
proof -
  assume h: "parse_exp_part s = Some (e, r)"
  show ?thesis
  proof (cases s)
    case Nil
    with h show ?thesis by (simp add: parse_exp_part_def)
  next
    case (Cons c cs)
    show ?thesis
    proof (cases "c = 0x65 \<or> c = 0x45")
      case False
      with h Cons show ?thesis by (simp add: parse_exp_part_def)
    next
      case True
      define u where "u = (case cs of [] \<Rightarrow> cs
          | d # ds \<Rightarrow> if d = 0x2D then ds else if d = 0x2B then ds else cs)"
      from h Cons True have "takeWhile is_digit u \<noteq> []" and "r = dropWhile is_digit u"
        by (auto simp: parse_exp_part_def Let_def u_def split: if_splits list.splits)
      then have e: "ends_in_digit u r" by (simp add: ends_in_digit_takeWhile)
      have "u = cs \<or> (\<exists>d. cs = d # u)"
        by (auto simp: u_def split: list.splits)
      with e have "ends_in_digit cs r" by (auto simp: ends_in_digit_Cons)
      with Cons show ?thesis by (simp add: ends_in_digit_Cons)
    qed
  qed
qed

lemma parse_number_consumed: "parse_number s = Some (q, r) \<Longrightarrow> ends_in_digit s r"
proof -
  assume h: "parse_number s = Some (q, r)"
  define s1 where "s1 = (case s of [] \<Rightarrow> s | c # cs \<Rightarrow> if c = 0x2D then cs else s)"
  from h obtain n s2 f s3 e where i: "parse_int_part s1 = Some (n, s2)"
    and fr: "parse_frac_part s2 = Some (f, s3)" and ex: "parse_exp_part s3 = Some (e, r)"
    by (auto simp: parse_number_def s1_def Let_def split: option.splits list.splits if_splits)
  from parse_int_part_consumed [OF i] parse_frac_part_consumed [OF fr]
  have "ends_in_digit s1 s3" by (auto intro: ends_in_digit_trans)
  with parse_exp_part_consumed [OF ex] have "ends_in_digit s1 r"
    by (auto intro: ends_in_digit_trans)
  moreover have "s1 = s \<or> (\<exists>c. s = c # s1)"
    by (auto simp: s1_def split: list.splits)
  ultimately show ?thesis by (auto simp: ends_in_digit_Cons)
qed

lemma ends_in_digit_length: "ends_in_digit s r \<Longrightarrow> length r < length s"
  by (auto simp: ends_in_digit_def)


lemma parse_atom_length: "parse_atom s = Some (v, r) \<Longrightarrow> length r < length s"
proof -
  assume h: "parse_atom s = Some (v, r)"
  consider "strip_prefix (js ''true'') s = Some r" | "strip_prefix (js ''false'') s = Some r"
    | "strip_prefix (js ''null'') s = Some r" | q where "parse_number s = Some (q, r)"
    using h by (auto simp: parse_atom_def split: option.splits)
  then show ?thesis
  proof cases
    case 1
    from strip_prefix_Some [OF this] show ?thesis by (simp add: js_def)
  next
    case 2
    from strip_prefix_Some [OF this] show ?thesis by (simp add: js_def)
  next
    case 3
    from strip_prefix_Some [OF this] show ?thesis by (simp add: js_def)
  next
    case 4
    from parse_number_consumed [OF this] show ?thesis by (rule ends_in_digit_length)
  qed
qed

lemma parse_value_Nil: "skip_ws s = [] \<Longrightarrow> parse_value s = None"
  by (subst parse_value.simps) simp

lemma parse_value_Cons:
  "skip_ws s = c # cs \<Longrightarrow>
   parse_value s =
     (if c = 0x5B then
        (case skip_ws cs of
           [] \<Rightarrow> None
         | d # ds \<Rightarrow>
             if d = 0x5D then Some (JArr [], ds)
             else map_option (apfst JArr) (parse_elems cs))
      else if c = 0x7B then
        (case skip_ws cs of
           [] \<Rightarrow> None
         | d # ds \<Rightarrow>
             if d = 0x7D then Some (mk_object [], ds)
             else map_option (apfst mk_object) (parse_members cs))
      else if c = 0x22 then map_option (apfst JStr) (parse_chars cs)
      else parse_atom (c # cs))"
  by (subst parse_value.simps) simp

lemma parse_lengths:
  "\<forall>v r. parse_value s = Some (v, r) \<longrightarrow> length r < length s"
  "\<forall>vs r. parse_elems s1 = Some (vs, r) \<longrightarrow> length r < length s1"
  "\<forall>m r. parse_members s2 = Some (m, r) \<longrightarrow> length r < length s2"
proof (induction s and s1 and s2 rule: parse_value_parse_elems_parse_members.induct)
  case (1 s)
  show ?case
  proof (intro allI impI)
    fix v r
    assume p: "parse_value s = Some (v, r)"
    then obtain c cs where sw: "skip_ws s = c # cs"
      by (cases "skip_ws s") (simp_all add: parse_value_Nil)
    note len = skip_ws_Cons_length [OF sw]
    note eq = p [unfolded parse_value_Cons [OF sw]]
    consider (arr) "c = 0x5B" | (obj) "c \<noteq> 0x5B" "c = 0x7B"
      | (str) "c \<noteq> 0x5B" "c \<noteq> 0x7B" "c = 0x22"
      | (atom) "c \<noteq> 0x5B" "c \<noteq> 0x7B" "c \<noteq> 0x22"
      by blast
    then show "length r < length s"
    proof cases
      case arr
      with eq obtain d ds where sw2: "skip_ws cs = d # ds"
        by (cases "skip_ws cs") simp_all
      show ?thesis
      proof (cases "d = 0x5D")
        case True
        with eq arr sw2 have "r = ds" by simp
        with skip_ws_Cons_length [OF sw2] len show ?thesis by simp
      next
        case False
        with eq arr sw2 obtain vs where "parse_elems cs = Some (vs, r)" by auto
        with "1.IH"(1) [OF sw arr sw2 False] have "length r < length cs" by blast
        with len show ?thesis by simp
      qed
    next
      case obj
      with eq obtain d ds where sw2: "skip_ws cs = d # ds"
        by (cases "skip_ws cs") simp_all
      show ?thesis
      proof (cases "d = 0x7D")
        case True
        with eq obj sw2 have "r = ds" by simp
        with skip_ws_Cons_length [OF sw2] len show ?thesis by simp
      next
        case False
        with eq obj sw2 obtain m where "parse_members cs = Some (m, r)" by auto
        with "1.IH"(2) [OF sw obj sw2 False] have "length r < length cs" by blast
        with len show ?thesis by simp
      qed
    next
      case str
      with eq obtain k where "parse_chars cs = Some (k, r)" by auto
      from parse_chars_length [OF this] len show ?thesis by simp
    next
      case atom
      with eq have "parse_atom (c # cs) = Some (v, r)" by simp
      from parse_atom_length [OF this] len show ?thesis by simp
    qed
  qed
next
  case (2 s)
  show ?case
  proof (intro allI impI)
    fix vs r
    assume p: "parse_elems s = Some (vs, r)"
    then obtain v y where pv: "parse_value s = Some (v, y)"
      by (subst (asm) parse_elems.simps) (auto split: option.splits)
    with "2.IH"(1) have ly: "length y < length s" by blast
    from p pv obtain c cs where sw: "skip_ws y = c # cs"
      by (subst (asm) parse_elems.simps) (auto split: list.splits)
    from skip_ws_Cons_length [OF sw] ly have lcs: "length cs < length s" by simp
    show "length r < length s"
    proof (cases "c = 0x5D")
      case True
      with p pv sw have "r = cs" by (subst (asm) parse_elems.simps) simp
      with lcs show ?thesis by simp
    next
      case False
      with p pv sw have c: "c = 0x2C \<and> length cs < length s"
        by (subst (asm) parse_elems.simps) (auto split: if_splits)
      with p pv sw False obtain ws where "parse_elems cs = Some (ws, r)"
        by (subst (asm) parse_elems.simps) auto
      with "2.IH"(2) [OF pv refl sw False c] have "length r < length cs" by blast
      with lcs show ?thesis by simp
    qed
  qed
next
  case (3 s)
  show ?case
  proof (intro allI impI)
    fix m r
    assume p: "parse_members s = Some (m, r)"
    then obtain q cs where sw: "skip_ws s = q # cs" and q: "q = 0x22"
      by (subst (asm) parse_members.simps) (auto split: list.splits if_splits)
    from p sw q obtain k y where pc: "parse_chars cs = Some (k, y)"
      by (subst (asm) parse_members.simps) (auto split: option.splits)
    from p sw q pc obtain c r2 where sw2: "skip_ws y = c # r2" and c: "c = 0x3A"
      by (subst (asm) parse_members.simps) (auto split: list.splits if_splits)
    from p sw q pc sw2 c obtain v r3 where pv: "parse_value r2 = Some (v, r3)"
      by (subst (asm) parse_members.simps) (auto split: option.splits)
    from p sw q pc sw2 c pv obtain d r4 where sw3: "skip_ws r3 = d # r4"
      by (subst (asm) parse_members.simps) (auto split: list.splits)
    from "3.IH"(1) [OF sw q pc refl sw2 c] pv have l3: "length r3 < length r2" by blast
    from skip_ws_Cons_length [OF sw] parse_chars_length [OF pc] skip_ws_Cons_length [OF sw2]
    have l2: "length r2 < length s" by simp
    from skip_ws_Cons_length [OF sw3] l3 l2 have l4: "length r4 < length s" by simp
    show "length r < length s"
    proof (cases "d = 0x7D")
      case True
      with p sw q pc sw2 c pv sw3 have "r = r4" by (subst (asm) parse_members.simps) simp
      with l4 show ?thesis by simp
    next
      case False
      with p sw q pc sw2 c pv sw3 have dc: "d = 0x2C \<and> length r4 < length s"
        by (subst (asm) parse_members.simps) (auto split: if_splits)
      with p sw q pc sw2 c pv sw3 False obtain m' where "parse_members r4 = Some (m', r)"
        by (subst (asm) parse_members.simps) auto
      with "3.IH"(2) [OF sw q pc refl sw2 c pv refl sw3 False dc] have "length r < length r4"
        by blast
      with l4 show ?thesis by simp
    qed
  qed
qed

lemma parse_elems_unguarded:
  "parse_elems s =
     (case parse_value s of
        None \<Rightarrow> None
      | Some (v, r) \<Rightarrow>
          (case skip_ws r of
             [] \<Rightarrow> None
           | c # cs \<Rightarrow>
               if c = 0x5D then Some ([v], cs)
               else if c = 0x2C then map_option (apfst ((#) v)) (parse_elems cs)
               else None))"
proof (cases "parse_value s")
  case None
  then show ?thesis by (subst parse_elems.simps) simp
next
  case (Some a)
  obtain v r where a: "a = (v, r)" by (cases a)
  with Some parse_lengths(1) [of s] have l: "length r < length s" by blast
  show ?thesis
  proof (cases "skip_ws r")
    case Nil
    with Some a show ?thesis by (subst parse_elems.simps) simp
  next
    case (Cons c cs)
    from skip_ws_Cons_length [OF Cons] l have "length cs < length s" by simp
    with Some a Cons show ?thesis by (subst parse_elems.simps) simp
  qed
qed

lemma parse_members_unguarded:
  "parse_members s =
     (case skip_ws s of
        [] \<Rightarrow> None
      | q # cs \<Rightarrow>
          if q = 0x22 then
            (case parse_chars cs of
               None \<Rightarrow> None
             | Some (k, r) \<Rightarrow>
                 (case skip_ws r of
                    [] \<Rightarrow> None
                  | c # r2 \<Rightarrow>
                      if c = 0x3A then
                        (case parse_value r2 of
                           None \<Rightarrow> None
                         | Some (v, r3) \<Rightarrow>
                             (case skip_ws r3 of
                                [] \<Rightarrow> None
                              | d # r4 \<Rightarrow>
                                  if d = 0x7D then Some ([(k, v)], r4)
                                  else if d = 0x2C then
                                    map_option (apfst ((#) (k, v))) (parse_members r4)
                                  else None))
                      else None))
          else None)"
proof -
  have g: "length r4 < length s"
    if "skip_ws s = q # cs" "parse_chars cs = Some (k, r)" "skip_ws r = c # r2"
      "parse_value r2 = Some (v, r3)" "skip_ws r3 = d # r4" for q cs k r c r2 v r3 d r4
    using skip_ws_Cons_length [OF that(1)] parse_chars_length [OF that(2)]
      skip_ws_Cons_length [OF that(3)] parse_lengths(1) [of r2] that(4)
      skip_ws_Cons_length [OF that(5)]
    by fastforce
  show ?thesis
    by (subst parse_members.simps)
       (auto split: list.splits option.splits simp: g)
qed

subsection \<open>A cleaned text holds no string\<close>

lemma escaped_quotes_replace_quote:
  "escaped_quotes b (replace_unit 0x22 [0x5C, 0x22] s)"
  by (induction s arbitrary: b) (simp_all add: replace_unit_def)

lemma escaped_quotes_replace_apostrophe:
  "escaped_quotes b s \<Longrightarrow> escaped_quotes b (replace_escaped_apostrophe s)"
  by (induction s arbitrary: b rule: replace_escaped_apostrophe.induct) auto

lemma escaped_quotes_cleanContent: "escaped_quotes False (cleanContent t)"
  unfolding cleanContent_def
  by (intro escaped_quotes_replace_apostrophe escaped_quotes_replace_quote)

lemma escaped_quotes_skip_ws:
  "escaped_quotes False s \<Longrightarrow> escaped_quotes False (skip_ws s)"
  by (induction s) (auto simp: skip_ws_def is_json_ws_def)

lemma escaped_quotes_suffix:
  "escaped_quotes b (p @ r) \<Longrightarrow> p \<noteq> [] \<Longrightarrow> last p \<noteq> 0x5C \<Longrightarrow> escaped_quotes False r"
proof (induction p arbitrary: b)
  case Nil
  then show ?case by simp
next
  case (Cons c p)
  show ?case
  proof (cases "p = []")
    case True
    with Cons.prems show ?thesis by simp
  next
    case False
    with Cons.prems have "escaped_quotes (c = 0x5C) (p @ r)" "last p \<noteq> 0x5C" by simp_all
    with Cons.IH False show ?thesis by blast
  qed
qed

lemma escaped_quotes_tail:
  "escaped_quotes False (c # cs) \<Longrightarrow> c \<noteq> 0x5C \<Longrightarrow> escaped_quotes False cs"
  by simp

lemma escaped_quotes_head: "escaped_quotes False (c # cs) \<Longrightarrow> c \<noteq> 0x22"
  by auto

lemma parse_atom_plain:
  assumes "parse_atom s = Some (v, r)"
  shows "stringless v \<and> (\<exists>p. s = p @ r \<and> p \<noteq> [] \<and> last p \<noteq> 0x5C)"
proof -
  consider "strip_prefix (js ''true'') s = Some r" "v = JBool True"
    | "strip_prefix (js ''false'') s = Some r" "v = JBool False"
    | "strip_prefix (js ''null'') s = Some r" "v = JNull"
    | q where "parse_number s = Some (q, r)" "v = JNum q"
    using assms by (auto simp: parse_atom_def split: option.splits)
  then show ?thesis
  proof cases
    case 1
    from strip_prefix_Some [OF 1(1)] 1(2) show ?thesis
      by (intro conjI exI [of _ "js ''true''"]) (simp_all add: js_def)
  next
    case 2
    from strip_prefix_Some [OF 2(1)] 2(2) show ?thesis
      by (intro conjI exI [of _ "js ''false''"]) (simp_all add: js_def)
  next
    case 3
    from strip_prefix_Some [OF 3(1)] 3(2) show ?thesis
      by (intro conjI exI [of _ "js ''null''"]) (simp_all add: js_def)
  next
    case 4
    from parse_number_consumed [OF 4(1)] obtain p where "s = p @ r" "p \<noteq> []" "is_digit (last p)"
      by (auto simp: ends_in_digit_def)
    moreover from this have "last p \<noteq> 0x5C" by (auto simp: is_digit_def)
    ultimately show ?thesis using 4(2) by auto
  qed
qed

lemma parse_stringless:
  "escaped_quotes False s \<longrightarrow>
     (\<forall>v r. parse_value s = Some (v, r) \<longrightarrow> stringless v \<and> escaped_quotes False r)"
  "escaped_quotes False s1 \<longrightarrow>
     (\<forall>vs r. parse_elems s1 = Some (vs, r) \<longrightarrow>
        (\<forall>x \<in> set vs. stringless x) \<and> escaped_quotes False r)"
  "escaped_quotes False s2 \<longrightarrow> parse_members s2 = None"
proof (induction s and s1 and s2 rule: parse_value_parse_elems_parse_members.induct)
  case (1 s)
  show ?case
  proof (intro allI impI)
    fix v r
    assume e: "escaped_quotes False s" and p: "parse_value s = Some (v, r)"
    then obtain c cs where sw: "skip_ws s = c # cs"
      by (cases "skip_ws s") (simp_all add: parse_value_Nil)
    from escaped_quotes_skip_ws [OF e] sw have ec: "escaped_quotes False (c # cs)" by simp
    then have nq: "c \<noteq> 0x22" by (rule escaped_quotes_head)
    note eq = p [unfolded parse_value_Cons [OF sw]]
    consider (arr) "c = 0x5B" | (obj) "c \<noteq> 0x5B" "c = 0x7B"
      | (atom) "c \<noteq> 0x5B" "c \<noteq> 0x7B"
      by blast
    then show "stringless v \<and> escaped_quotes False r"
    proof cases
      case arr
      with ec have ecs: "escaped_quotes False cs" by simp
      from eq arr obtain d ds where sw2: "skip_ws cs = d # ds"
        by (cases "skip_ws cs") simp_all
      from escaped_quotes_skip_ws [OF ecs] sw2 have ed: "escaped_quotes False (d # ds)" by simp
      show ?thesis
      proof (cases "d = 0x5D")
        case True
        with eq arr sw2 have "v = JArr []" "r = ds" by simp_all
        with ed True show ?thesis by simp
      next
        case False
        with eq arr sw2 obtain vs where "parse_elems cs = Some (vs, r)" "v = JArr vs" by auto
        with "1.IH"(1) [OF sw arr sw2 False] ecs show ?thesis by simp
      qed
    next
      case obj
      with ec have ecs: "escaped_quotes False cs" by simp
      from eq obj obtain d ds where sw2: "skip_ws cs = d # ds"
        by (cases "skip_ws cs") simp_all
      from escaped_quotes_skip_ws [OF ecs] sw2 have ed: "escaped_quotes False (d # ds)" by simp
      show ?thesis
      proof (cases "d = 0x7D")
        case True
        with eq obj sw2 have "v = mk_object []" "r = ds" by simp_all
        with ed True show ?thesis by (simp add: mk_object_def)
      next
        case False
        from "1.IH"(2) [OF sw obj(1) obj(2) sw2 False] ecs have "parse_members cs = None" by simp
        with eq obj sw2 False show ?thesis by simp
      qed
    next
      case atom
      with eq nq have "parse_atom (c # cs) = Some (v, r)" by simp
      from parse_atom_plain [OF this] obtain p where "stringless v" "c # cs = p @ r" "p \<noteq> []"
          "last p \<noteq> 0x5C"
        by blast
      with ec escaped_quotes_suffix [of False p r] show ?thesis by simp
    qed
  qed
next
  case (2 s)
  show ?case
  proof (intro allI impI)
    fix vs r
    assume e: "escaped_quotes False s" and p: "parse_elems s = Some (vs, r)"
    note eq = p [unfolded parse_elems_unguarded [of s]]
    from eq obtain v y where pv: "parse_value s = Some (v, y)"
      by (auto split: option.splits)
    with "2.IH"(1) e have sv: "stringless v" and ey: "escaped_quotes False y" by blast+
    from eq pv obtain c cs where sw: "skip_ws y = c # cs"
      by (auto split: list.splits)
    from escaped_quotes_skip_ws [OF ey] sw have ec: "escaped_quotes False (c # cs)" by simp
    show "(\<forall>x \<in> set vs. stringless x) \<and> escaped_quotes False r"
    proof (cases "c = 0x5D")
      case True
      with eq pv sw have "vs = [v]" "r = cs" by simp_all
      with sv ec True show ?thesis by simp
    next
      case False
      with eq pv sw have c: "c = 0x2C" by (auto split: if_splits)
      with ec have ecs: "escaped_quotes False cs" by simp
      from skip_ws_Cons_length [OF sw] parse_lengths(1) [of s] pv
      have l: "length cs < length s" by fastforce
      from eq pv sw False c obtain ws where pe: "parse_elems cs = Some (ws, r)" "vs = v # ws"
        by auto
      from "2.IH"(2) [OF pv refl sw False] c l ecs pe(1)
      have "(\<forall>x \<in> set ws. stringless x) \<and> escaped_quotes False r" by blast
      with sv pe(2) show ?thesis by simp
    qed
  qed
next
  case (3 s)
  show ?case
  proof
    assume e: "escaped_quotes False s"
    show "parse_members s = None"
    proof (cases "skip_ws s")
      case Nil
      then show ?thesis by (subst parse_members.simps) simp
    next
      case (Cons q cs)
      with escaped_quotes_skip_ws [OF e] have "q \<noteq> 0x22" by (auto dest: escaped_quotes_head)
      with Cons show ?thesis by (subst parse_members.simps) simp
    qed
  qed
qed

lemma JSON_parse_cleaned_stringless:
  "JSON_parse (cleanContent t) = Some v \<Longrightarrow> stringless v"
  using parse_stringless(1) [of "cleanContent t"] escaped_quotes_cleanContent [of t]
  by (auto simp: JSON_parse_def split: option.splits if_splits)

lemma stringless_no_property:
  "stringless v \<Longrightarrow> get_prop v k = Inl TypeError \<or> get_prop v k = Inr None"
  by (cases v) (simp_all add: get_prop_def)

lemma recovery_yields_no_findings:
  assumes "messages_create w n p = Inr (TextBlock tx # bs)" and "JSON_parse tx = None"
  shows "snd (getAIResponse w n p) = Inr None"
proof (cases "JSON_parse (cleanContent tx)")
  case None
  with assms show ?thesis
    by (simp add: getAIResponse_snd getAIResponse_try_unparsable)
next
  case (Some v)
  from JSON_parse_cleaned_stringless [OF Some] have "stringless v" .
  from stringless_no_property [OF this, of "js ''reviews''"]
  have "\<forall>rs. get_prop v (js ''reviews'') \<noteq> Inr (Some (JArr rs))" by auto
  from reviews_of_no_array [OF this, of w]
  have "snd (reviews_of w v) = Inr None \<or> (\<exists>e. snd (reviews_of w v) = Inl e)" .
  moreover from assms(2) Some
  have "snd (getAIResponse_try w (Inr (TextBlock tx # bs))) = snd (reviews_of w v)"
    by (rule getAIResponse_try_recovered)
  ultimately show ?thesis
    using assms(1) unfolding getAIResponse_snd by (elim disjE exE) simp_all
qed

subsection \<open>\<open>Number\<close> on a string of digits\<close>







subsection \<open>The rating sentence and the lint score\<close>

lemma match_rating_skip:
  "(\<forall>i < length pre. match_rating_here (drop i (pre @ rest)) = None) \<Longrightarrow>
   match_rating (pre @ rest) = match_rating rest"
proof (induction pre)
  case Nil
  show ?case by simp
next
  case (Cons c pre)
  from Cons.prems have here: "match_rating_here ((c # pre) @ rest) = None"
    by (metis drop0 length_greater_0_conv list.distinct(1))
  have "\<forall>i < length pre. match_rating_here (drop i (pre @ rest)) = None"
  proof (intro allI impI)
    fix i
    assume "i < length pre"
    then have "Suc i < length (c # pre)" by simp
    with Cons.prems have "match_rating_here (drop (Suc i) ((c # pre) @ rest)) = None"
      by blast
    then show "match_rating_here (drop i (pre @ rest)) = None" by simp
  qed
  with Cons.IH have "match_rating (pre @ rest) = match_rating rest" .
  with here show ?case by simp
qed

lemma match_rating_none:
  "(\<forall>i \<le> length s. match_rating_here (drop i s) = None) \<Longrightarrow> match_rating s = None"
proof (induction s)
  case Nil
  then show ?case by simp
next
  case (Cons c s)
  from Cons.prems have here: "match_rating_here (c # s) = None"
    by (metis drop0 le0)
  have "\<forall>i \<le> length s. match_rating_here (drop i s) = None"
  proof (intro allI impI)
    fix i
    assume "i \<le> length s"
    then have "Suc i \<le> length (c # s)" by simp
    with Cons.prems have "match_rating_here (drop (Suc i) (c # s)) = None"
      by blast
    then show "match_rating_here (drop i s) = None" by simp
  qed
  with Cons.IH have "match_rating s = None" .
  with here show ?case by simp
qed

lemma match_rating_750:
  assumes "takeWhile is_digit post = []"
  shows "match_rating (js ''Your code has been rated at 7.50'' @ post) = Some (js ''7.50'')"
  using assms by (simp add: js_def match_rating_here_def is_digit_def)

lemma parseFloat_750: "parseFloat_group (js ''7.50'') = 15 / 2"
  by (simp add: parseFloat_group_def js_def is_digit_def digits_val_def digit_val_def)

lemma getPylintScore_no_files:
  "glob_py w = Inr [] \<Longrightarrow>
   getPylintScore w =
     ([console_log [L []], console_log [S (js ''No Python files found in the repository.'')]],
      Inr 10)"
  by (simp add: getPylintScore_def ret_def)

lemma getPylintScore_report:
  "glob_py w = Inr files \<Longrightarrow> files \<noteq> [] \<Longrightarrow>
   execAsync w (pylint_command files) = Inr (report, err) \<Longrightarrow>
   getPylintScore w =
     (console_log [L files] # (if err \<noteq> [] then [console_error [S (js ''Pylint error:''), S err]] else []),
      Inr (parsePylint report))"
  by (simp add: getPylintScore_def ret_def emit_def)

lemma getPylintScore_rejected:
  "glob_py w = Inr files \<Longrightarrow> files \<noteq> [] \<Longrightarrow>
   execAsync w (pylint_command files) = Inl e \<Longrightarrow>
   getPylintScore w = ([console_log [L files]], Inl e)"
  by (simp add: getPylintScore_def)

subsection \<open>The orchestrator\<close>

lemma getPylintScore_console: "list_all is_console (fst (getPylintScore w))"
proof (cases "glob_py w")
  case (Inl e)
  then show ?thesis by (simp add: getPylintScore_def)
next
  case (Inr files)
  show ?thesis
  proof (cases "files = []")
    case True
    with Inr show ?thesis
      by (simp add: getPylintScore_no_files is_console_def)
  next
    case False
    show ?thesis
    proof (cases "execAsync w (pylint_command files)")
      case (Inl e)
      with Inr False show ?thesis
        by (simp add: getPylintScore_rejected is_console_def)
    next
      case r: (Inr out)
      obtain report err where "out = (report, err)" by (cases out)
      with Inr False r show ?thesis
        by (simp add: getPylintScore_report is_console_def)
    qed
  qed
qed

text \<open>The run after the diff has been parsed, in terms of its three stages.\<close>

lemma review_diff_stages:
  assumes "d \<noteq> []" and "parseDiff w d = Inr parsed"
    and "analyzeCode w (filteredDiff w parsed) pr = (t1, Inr comments)"
    and "getPylintScore w = (t2, r2)"
  shows "review_diff w pr (Some d) =
    (case r2 of
       Inl e \<Rightarrow> (t1 @ t2, Inl e)
     | Inr pylintScore \<Rightarrow>
         (case createComment_outcome w (score_comment w pylintScore) of
            Inl e \<Rightarrow>
              (t1 @ t2 @ [issues_createComment (owner pr) (repo pr) (pull_number pr)
                           (score_comment w pylintScore)], Inl e)
          | Inr u \<Rightarrow>
              if comments \<noteq> [] then
                (t1 @ t2 @ [issues_createComment (owner pr) (repo pr) (pull_number pr)
                             (score_comment w pylintScore),
                           pulls_createReview (owner pr) (repo pr) (pull_number pr) comments
                             (js ''COMMENT'')],
                 createReview_outcome w comments)
              else
                (t1 @ t2 @ [issues_createComment (owner pr) (repo pr) (pull_number pr)
                             (score_comment w pylintScore)], Inr ())))"
  using assms
  by (simp add: review_diff_def addPullRequestComment_def createReviewComment_def
      ret_def await_def split: sum.splits)

lemma review_diff_no_diff:
  "diff = None \<or> diff = Some [] \<Longrightarrow>
   review_diff w pr diff = ([console_log [S (js ''No diff found'')]], Inr ())"
  by (auto simp: review_diff_def emit_def)

lemma review_diff_parse_error:
  "d \<noteq> [] \<Longrightarrow> parseDiff w d = Inl e \<Longrightarrow> review_diff w pr (Some d) = ([], Inl e)"
  by (simp add: review_diff_def)


lemma is_console_not_review: "list_all is_console t \<Longrightarrow> pulls_createReview a b c cs evn \<notin> set t"
  by (auto simp: list_all_iff is_console_def)

lemma opened_not_synchronize: "js ''opened'' \<noteq> js ''synchronize''"
  by (simp add: js_def)

lemma main_reviewing:
  assumes "pr_details w = Inr pr" and "event_data w = Inr evd"
    and "action evd = Some (JStr (js ''opened'')) \<and> pulls_get_diff w = Inr diff
       \<or> action evd = Some (JStr (js ''synchronize'')) \<and> (\<exists>d. compareCommits w = Inr d \<and> diff = Some d)"
  shows "main w = review_diff w pr diff"
  using assms opened_not_synchronize by (auto simp: main_def)

lemma main_cases:
  "(\<exists>e. main w = ([], Inl e))
   \<or> main w = ([console_log [S (js ''Unsupported event:''), Env (event_name w)]], Inr ())
   \<or> (\<exists>pr diff. main w = review_diff w pr diff)"
proof (cases "pr_details w")
  case (Inl e)
  then show ?thesis by (simp add: main_def)
next
  case pr: (Inr pr)
  show ?thesis
  proof (cases "event_data w")
    case (Inl e)
    with pr show ?thesis by (simp add: main_def)
  next
    case ev: (Inr evd)
    show ?thesis
    proof (cases "action evd = Some (JStr (js ''opened''))")
      case True
      with pr ev show ?thesis
        by (cases "pulls_get_diff w") (auto simp: main_def)
    next
      case False
      with pr ev show ?thesis
        by (cases "compareCommits w") (auto simp: main_def emit_def)
    qed
  qed
qed

lemma run_main:
  "run w = fst (main w) @
     (case snd (main w) of
        Inl error \<Rightarrow> [console_error [S (js ''Error:''), E error], process_exit 1]
      | Inr u \<Rightarrow> [])"
  by (cases "main w") (simp add: run_def split: sum.splits)

lemma review_diff_shape:
  "review_diff w pr diff = ([console_log [S (js ''No diff found'')]], Inr ())
   \<or> (\<exists>e. review_diff w pr diff = ([], Inl e))
   \<or> (\<exists>d parsed t1 comments t2 r2. diff = Some d \<and> d \<noteq> [] \<and> parseDiff w d = Inr parsed
        \<and> analyzeCode w (filteredDiff w parsed) pr = (t1, Inr comments) \<and> list_all is_console t1
        \<and> getPylintScore w = (t2, r2) \<and> list_all is_console t2)"
proof (cases "diff = None \<or> diff = Some []")
  case True
  then show ?thesis by (simp add: review_diff_no_diff)
next
  case False
  then obtain d where d: "diff = Some d" "d \<noteq> []" by (cases diff) auto
  show ?thesis
  proof (cases "parseDiff w d")
    case (Inl e)
    with d show ?thesis by (simp add: review_diff_parse_error)
  next
    case (Inr parsed)
    obtain t1 comments where a: "analyzeCode w (filteredDiff w parsed) pr = (t1, Inr comments)"
        "list_all is_console t1"
      using analyzeCode_total [of w "filteredDiff w parsed" pr] by blast
    obtain t2 r2 where l: "getPylintScore w = (t2, r2)" by (cases "getPylintScore w")
    with getPylintScore_console [of w] have "list_all is_console t2" by simp
    with d Inr a l show ?thesis by blast
  qed
qed

lemma review_diff_reviews:
  assumes "pulls_createReview a b c cs evn \<in> set (fst (review_diff w pr diff))"
  shows "cs \<noteq> [] \<and> evn = js ''COMMENT''
    \<and> (\<exists>d parsed t. diff = Some d \<and> parseDiff w d = Inr parsed
          \<and> analyzeCode w (filteredDiff w parsed) pr = (t, Inr cs))"
proof -
  consider "review_diff w pr diff = ([console_log [S (js ''No diff found'')]], Inr ())"
    | e where "review_diff w pr diff = ([], Inl e)"
    | d parsed t1 comments t2 r2 where "diff = Some d" "d \<noteq> []" "parseDiff w d = Inr parsed"
        "analyzeCode w (filteredDiff w parsed) pr = (t1, Inr comments)" "list_all is_console t1"
        "getPylintScore w = (t2, r2)" "list_all is_console t2"
    using review_diff_shape [of w pr diff] by blast
  then show ?thesis
  proof cases
    case 1
    with assms show ?thesis by simp
  next
    case 2
    with assms show ?thesis by simp
  next
    case 3
    from 3(5) have n1: "pulls_createReview a b c cs evn \<notin> set t1"
      by (rule is_console_not_review)
    from 3(7) have n2: "pulls_createReview a b c cs evn \<notin> set t2"
      by (rule is_console_not_review)
    from assms n1 n2 have "cs = comments \<and> comments \<noteq> [] \<and> evn = js ''COMMENT''"
      unfolding 3(1) review_diff_stages [OF 3(2) 3(3) 3(4) 3(6)]
      by (auto split: sum.splits if_splits)
    with 3 show ?thesis by blast
  qed
qed

lemma run_reviews:
  assumes "pulls_createReview a b c cs evn \<in> set (run w)"
  shows "cs \<noteq> [] \<and> evn = js ''COMMENT''
    \<and> (\<exists>pr d parsed t. parseDiff w d = Inr parsed
          \<and> analyzeCode w (filteredDiff w parsed) pr = (t, Inr cs))"
proof -
  from assms have m: "pulls_createReview a b c cs evn \<in> set (fst (main w))"
    by (auto simp: run_main split: sum.splits)
  consider e where "main w = ([], Inl e)"
    | "main w = ([console_log [S (js ''Unsupported event:''), Env (event_name w)]], Inr ())"
    | pr diff where "main w = review_diff w pr diff"
    using main_cases [of w] by blast
  then show ?thesis
  proof cases
    case 1
    with m show ?thesis by simp
  next
    case 2
    with m show ?thesis by simp
  next
    case 3
    with m review_diff_reviews [of a b c cs evn w pr diff] show ?thesis by auto
  qed
qed

lemma lint_rejected_console:
  assumes "getPylintScore w = (t2, Inl e)"
  shows "list_all is_console (fst (main w))"
proof -
  have rd: "list_all is_console (fst (review_diff w pr diff))" for pr diff
  proof -
    consider "review_diff w pr diff = ([console_log [S (js ''No diff found'')]], Inr ())"
      | e where "review_diff w pr diff = ([], Inl e)"
      | d parsed t1 comments t2' r2 where "diff = Some d" "d \<noteq> []" "parseDiff w d = Inr parsed"
          "analyzeCode w (filteredDiff w parsed) pr = (t1, Inr comments)" "list_all is_console t1"
          "getPylintScore w = (t2', r2)" "list_all is_console t2'"
      using review_diff_shape [of w pr diff] by blast
    then show ?thesis
    proof cases
      case 1
      then show ?thesis by (simp add: is_console_def)
    next
      case 2
      then show ?thesis by simp
    next
      case 3
      with assms have "t2' = t2" "r2 = Inl e" by simp_all
      with 3 show ?thesis
        unfolding 3(1) review_diff_stages [OF 3(2) 3(3) 3(4) 3(6)] by simp
    qed
  qed
  consider e where "main w = ([], Inl e)"
    | "main w = ([console_log [S (js ''Unsupported event:''), Env (event_name w)]], Inr ())"
    | pr diff where "main w = review_diff w pr diff"
    using main_cases [of w] by blast
  then show ?thesis
  proof cases
    case 1
    then show ?thesis by simp
  next
    case 2
    then show ?thesis by (simp add: is_console_def)
  next
    case 3
    with rd [of pr diff] show ?thesis by simp
  qed
qed

lemma no_review_in_console: "list_all is_console t \<Longrightarrow> filter is_review t = []"
  by (induction t) (auto simp: is_console_def is_review_def split: effect.splits)

section \<open>The exclusion filter\<close>

text \<open>
  C8. For every parsed file list and every pattern list, the exclusion filter keeps
  exactly the files whose target path (the empty string when the target path is absent)
  matches none of the configured patterns: a file is dropped iff its path matches at least
  one pattern, and the kept files stay in their relative order.
\<close>

theorem exclusion_filter_drops_iff_match:
  "filteredDiff w files =
     filter (\<lambda>f. \<not> (\<exists>p \<in> set (excludePatterns w).
                       minimatch w (case to f of None \<Rightarrow> [] | Some t \<Rightarrow> t) p)) files
   \<and> (\<forall>f \<in> set files.
        f \<notin> set (filteredDiff w files) \<longleftrightarrow>
          (\<exists>p \<in> set (excludePatterns w).
             minimatch w (case to f of None \<Rightarrow> [] | Some t \<Rightarrow> t) p))
   \<and> subseq (filteredDiff w files) files"
proof (intro conjI)
  show eq: "filteredDiff w files =
     filter (\<lambda>f. \<not> (\<exists>p \<in> set (excludePatterns w).
                       minimatch w (case to f of None \<Rightarrow> [] | Some t \<Rightarrow> t) p)) files"
    by (simp add: filteredDiff_def list_ex_iff)
  show "\<forall>f \<in> set files.
        f \<notin> set (filteredDiff w files) \<longleftrightarrow>
          (\<exists>p \<in> set (excludePatterns w).
             minimatch w (case to f of None \<Rightarrow> [] | Some t \<Rightarrow> t) p)"
    unfolding eq by simp
  show "subseq (filteredDiff w files) files"
    unfolding eq by (rule subseq_filter_left)
qed

theorem exclusion_filter_witness:
  "filteredDiff (demo_world [] (Inr ([], [])))
     [demo_file (Some (js ''app.ts'')), demo_file (Some (js ''README.md'')), demo_file None]
   = [demo_file (Some (js ''app.ts'')), demo_file None]
   \<and> subseq [demo_file (Some (js ''app.ts'')), demo_file None]
       [demo_file (Some (js ''app.ts'')), demo_file (Some (js ''README.md'')), demo_file None]"
  using exclusion_filter_drops_iff_match [of "demo_world [] (Inr ([], []))"
      "[demo_file (Some (js ''app.ts'')), demo_file (Some (js ''README.md'')), demo_file None]"]
  by (simp add: demo_world_def demo_file_def demo_minimatch_def excludePatterns_def trim_def
      is_js_ws_def js_def suffix_def)



section \<open>Review comments\<close>

lemma demo_analyzeCode:
  "snd (analyzeCode (demo_world demo_response (Inr ([], [])))
     (filteredDiff (demo_world demo_response (Inr ([], [])))
        [demo_file (Some (js ''app.ts'')), demo_file (Some (js ''/dev/null''))])
     demo_pr)
   = Inr [\<lparr>body = JStr (js ''Use const''), path = js ''app.ts'', line = Num 12\<rparr>]"
  by code_simp

text \<open>
  C5. For every parsed diff and whatever the model answers, \<open>analyzeCode\<close> on the
  retained files returns (it does not throw), and every comment it returns carries the
  target path of one of the retained files, which is never the deleted-file sentinel
  \<open>/dev/null\<close>: a file with the sentinel as target contributes no comment. The same
  holds for every comment of a review that a run submits.
\<close>

theorem review_paths_from_retained_files:
  "(\<exists>t comments.
      analyzeCode w (filteredDiff w parsedDiff) prDetails = (t, Inr comments)
      \<and> (\<forall>c \<in> set comments.
           path c \<noteq> js ''/dev/null''
           \<and> (\<exists>f \<in> set (filteredDiff w parsedDiff). to f = Some (path c))))
   \<and> (pulls_createReview own rep num submitted evn \<in> set (run w) \<longrightarrow>
        (\<exists>d parsed. parseDiff w d = Inr parsed
           \<and> (\<forall>c \<in> set submitted.
                path c \<noteq> js ''/dev/null''
                \<and> (\<exists>f \<in> set (filteredDiff w parsed). to f = Some (path c)))))"
proof (intro conjI impI)
  show "\<exists>t comments.
      analyzeCode w (filteredDiff w parsedDiff) prDetails = (t, Inr comments)
      \<and> (\<forall>c \<in> set comments.
           path c \<noteq> js ''/dev/null''
           \<and> (\<exists>f \<in> set (filteredDiff w parsedDiff). to f = Some (path c)))"
    using analyzeCode_total [of w "filteredDiff w parsedDiff" prDetails] by blast
next
  assume "pulls_createReview own rep num submitted evn \<in> set (run w)"
  from run_reviews [OF this] obtain pr d parsed t where p: "parseDiff w d = Inr parsed"
    and a: "analyzeCode w (filteredDiff w parsed) pr = (t, Inr submitted)"
    by blast
  from analyzeCode_total [of w "filteredDiff w parsed" pr] a
  have "\<forall>c \<in> set submitted.
          path c \<noteq> js ''/dev/null''
          \<and> (\<exists>f \<in> set (filteredDiff w parsed). to f = Some (path c))"
    by auto
  with p show "\<exists>d parsed. parseDiff w d = Inr parsed
           \<and> (\<forall>c \<in> set submitted.
                path c \<noteq> js ''/dev/null''
                \<and> (\<exists>f \<in> set (filteredDiff w parsed). to f = Some (path c)))"
    by blast
qed

theorem review_paths_witness:
  "(\<exists>t comments.
     analyzeCode (demo_world demo_response (Inr ([], [])))
       (filteredDiff (demo_world demo_response (Inr ([], [])))
          [demo_file (Some (js ''app.ts'')), demo_file (Some (js ''/dev/null''))])
       demo_pr
       = (t, Inr comments)
     \<and> comments = [\<lparr>body = JStr (js ''Use const''), path = js ''app.ts'', line = Num 12\<rparr>]
     \<and> (\<forall>c \<in> set comments.
          path c \<noteq> js ''/dev/null''
          \<and> (\<exists>f \<in> set (filteredDiff (demo_world demo_response (Inr ([], [])))
                  [demo_file (Some (js ''app.ts'')), demo_file (Some (js ''/dev/null''))]).
                to f = Some (path c))))"
  using review_paths_from_retained_files [of "demo_world demo_response (Inr ([], []))"
      "[demo_file (Some (js ''app.ts'')), demo_file (Some (js ''/dev/null''))]"
      demo_pr, THEN conjunct1]
    demo_analyzeCode
  by auto


section \<open>The defensive pass over a review comment\<close>

text \<open>
  C9. For every string value of a \<open>reviewComment\<close> field, control characters and quotes
  included, serialising it and parsing the text again returns the same string: the pass
  is the identity on strings.
\<close>

theorem defensive_roundtrip_identity:
  "reparse w (Some (JStr s)) = Inr (JStr s)"
  by (simp add: reparse_def JSON_stringify_def JSON_parse_quote)

theorem defensive_roundtrip_witness:
  "reparse (demo_world [] (Inr ([], []))) (Some (JStr [0x61, 0x22, 0x0A, 0x01, 0x5C, 0x62]))
     = Inr (JStr [0x61, 0x22, 0x0A, 0x01, 0x5C, 0x62])
   \<and> JSON_stringify (num_to_string (demo_world [] (Inr ([], []))))
        (Some (JStr [0x61, 0x22, 0x0A, 0x01, 0x5C, 0x62]))
     = Some ([0x22, 0x61, 0x5C, 0x22, 0x5C, 0x6E] @ [0x5C] @ js ''u0001'' @ [0x5C, 0x5C, 0x62, 0x22])"
  using defensive_roundtrip_identity [of "demo_world [] (Inr ([], []))" "[0x61, 0x22, 0x0A, 0x01, 0x5C, 0x62]"]
  by (simp add: JSON_stringify_def quote_def quote_unit_def unicode_escape_def hex_digit_def js_def
      is_high_surrogate_def is_low_surrogate_def)

section \<open>The lint score collector\<close>

text \<open>
  C6, as the code has it. The collector returns 10 when no source file is found. With
  source files and a report of the linter, it returns 7.50 when the first place of the
  report that matches \<open>Your code has been rated at <digits>.<digits>\<close> is the sentence
  \<open>Your code has been rated at 7.50\<close> with no digit after it, and 0 when no place of
  the report matches.
\<close>

theorem lint_score_cases:
  "(glob_py w = Inr [] \<longrightarrow> snd (getPylintScore w) = Inr 10)
   \<and> (glob_py w = Inr files \<and> files \<noteq> []
        \<and> execAsync w (pylint_command files)
            = Inr (pre @ js ''Your code has been rated at 7.50'' @ post, err)
        \<and> (\<forall>i < length pre.
              match_rating_here (drop i (pre @ js ''Your code has been rated at 7.50'' @ post)) = None)
        \<and> takeWhile is_digit post = []
      \<longrightarrow> snd (getPylintScore w) = Inr (15 / 2))
   \<and> (glob_py w = Inr files \<and> files \<noteq> []
        \<and> execAsync w (pylint_command files) = Inr (report, err)
        \<and> (\<forall>i \<le> length report. match_rating_here (drop i report) = None)
      \<longrightarrow> snd (getPylintScore w) = Inr 0)"
proof (intro conjI impI)
  assume "glob_py w = Inr []"
  then show "snd (getPylintScore w) = Inr 10"
    by (simp add: getPylintScore_no_files)
next
  assume h: "glob_py w = Inr files \<and> files \<noteq> []
        \<and> execAsync w (pylint_command files)
            = Inr (pre @ js ''Your code has been rated at 7.50'' @ post, err)
        \<and> (\<forall>i < length pre.
              match_rating_here (drop i (pre @ js ''Your code has been rated at 7.50'' @ post)) = None)
        \<and> takeWhile is_digit post = []"
  then have "match_rating (pre @ js ''Your code has been rated at 7.50'' @ post)
      = match_rating (js ''Your code has been rated at 7.50'' @ post)"
    by (intro match_rating_skip) blast
  also have "\<dots> = Some (js ''7.50'')"
    using h by (intro match_rating_750) blast
  finally have "parsePylint (pre @ js ''Your code has been rated at 7.50'' @ post) = 15 / 2"
    by (simp add: parsePylint_def parseFloat_750)
  with h show "snd (getPylintScore w) = Inr (15 / 2)"
    using getPylintScore_report [of w files "pre @ js ''Your code has been rated at 7.50'' @ post" err]
    by simp
next
  assume h: "glob_py w = Inr files \<and> files \<noteq> []
        \<and> execAsync w (pylint_command files) = Inr (report, err)
        \<and> (\<forall>i \<le> length report. match_rating_here (drop i report) = None)"
  then have "match_rating report = None"
    by (intro match_rating_none) blast
  then have "parsePylint report = 0"
    by (simp add: parsePylint_def)
  with h show "snd (getPylintScore w) = Inr 0"
    using getPylintScore_report [of w files report err] by simp
qed


theorem lint_score_witness:
  "snd (getPylintScore ((demo_world [] (Inr ([], [])))\<lparr>glob_py := Inr []\<rparr>)) = Inr 10
   \<and> snd (getPylintScore (demo_world []
          (Inr (js ''ok'' @ [0x0A] @ js ''Your code has been rated at 7.50'' @ js ''/10'', []))))
       = Inr (15 / 2)
   \<and> snd (getPylintScore (demo_world [] (Inr (js ''n/a'', [])))) = Inr 0"
proof -
  have a: "snd (getPylintScore ((demo_world [] (Inr ([], [])))\<lparr>glob_py := Inr []\<rparr>)) = Inr 10"
    using lint_score_cases [of "(demo_world [] (Inr ([], [])))\<lparr>glob_py := Inr []\<rparr>"]
    by simp
  have "\<forall>i < length (js ''ok'' @ [0x0A]).
          match_rating_here (drop i ((js ''ok'' @ [0x0A]) @ js ''Your code has been rated at 7.50'' @ js ''/10'')) = None"
    by (simp add: js_def match_rating_here_def All_less_Suc eval_nat_numeral)
  then have b: "snd (getPylintScore (demo_world []
          (Inr (js ''ok'' @ [0x0A] @ js ''Your code has been rated at 7.50'' @ js ''/10'', []))))
       = Inr (15 / 2)"
    using lint_score_cases [of "demo_world []
          (Inr (js ''ok'' @ [0x0A] @ js ''Your code has been rated at 7.50'' @ js ''/10'', []))"
        "[js ''a.py'']" "js ''ok'' @ [0x0A]" "js ''/10''" "[]"]
    by (simp add: demo_world_def js_def is_digit_def)
  have "\<forall>i \<le> length (js ''n/a''). match_rating_here (drop i (js ''n/a'')) = None"
    by (simp add: js_def match_rating_here_def All_less_Suc le_less_Suc_eq eval_nat_numeral
        flip: less_Suc_eq_le)
  then have c: "snd (getPylintScore (demo_world [] (Inr (js ''n/a'', [])))) = Inr 0"
    using lint_score_cases [where w = "demo_world [] (Inr (js ''n/a'', []))"
        and files = "[js ''a.py'']" and report = "js ''n/a''" and err = "[]"]
    by (simp add: demo_world_def js_def)
  from a b c show ?thesis by simp
qed

text \<open>
  The claim as stated, "returns 7.50 when the report contains \<open>Your code has been rated
  at 7.50\<close>", fails on a report in which another rating sentence comes first: the
  expression is matched at the leftmost place.
\<close>

theorem lint_score_first_sentence_counterexample:
  "snd (getPylintScore (demo_world []
      (Inr (js ''Your code has been rated at 3.00/10'' @ [0x0A]
            @ js ''Your code has been rated at 7.50/10'', []))))
   = Inr 3
   \<and> snd (getPylintScore (demo_world []
      (Inr (js ''Your code has been rated at 3.00/10'' @ [0x0A]
            @ js ''Your code has been rated at 7.50/10'', []))))
   \<noteq> Inr (15 / 2)"
  by code_simp


section \<open>The model client\<close>

lemma demo_not_json:
  "JSON_parse (js ''not json'') = None \<and> JSON_parse (cleanContent (js ''not json'')) = None"
  by code_simp

lemma demo_no_reviews:
  \<open>JSON_parse (js ''{"review":[]}'') = Some (JObj [(js ''review'', JArr [])])\<close>
  by code_simp


text \<open>
  C2. For every prompt, \<open>getAIResponse\<close> returns and never throws. It returns the
  no-findings result \<open>null\<close> when the request is rejected, when the response text fails
  both the direct parse and the parse of the cleaned text, and when the parsed value has
  no \<open>reviews\<close> array.
\<close>

theorem getAIResponse_never_throws:
  "(\<exists>t r. getAIResponse w n prompt = (t, Inr r))
   \<and> (messages_create w n prompt = Inl e \<longrightarrow> snd (getAIResponse w n prompt) = Inr None)
   \<and> (messages_create w n prompt = Inr (TextBlock tx # bs)
        \<and> JSON_parse tx = None \<and> JSON_parse (cleanContent tx) = None
      \<longrightarrow> snd (getAIResponse w n prompt) = Inr None)
   \<and> (messages_create w n prompt = Inr (TextBlock tx # bs)
        \<and> (JSON_parse tx = Some v \<or> JSON_parse tx = None \<and> JSON_parse (cleanContent tx) = Some v)
        \<and> (\<forall>rs. get_prop v (js ''reviews'') \<noteq> Inr (Some (JArr rs)))
      \<longrightarrow> snd (getAIResponse w n prompt) = Inr None)"
proof (intro conjI impI)
  show "\<exists>t r. getAIResponse w n prompt = (t, Inr r)"
    using getAIResponse_total [of w n prompt] by blast
next
  assume "messages_create w n prompt = Inl e"
  then show "snd (getAIResponse w n prompt) = Inr None"
    by (simp add: getAIResponse_snd getAIResponse_try_rejected)
next
  assume "messages_create w n prompt = Inr (TextBlock tx # bs)
        \<and> JSON_parse tx = None \<and> JSON_parse (cleanContent tx) = None"
  then show "snd (getAIResponse w n prompt) = Inr None"
    by (simp add: getAIResponse_snd getAIResponse_try_unparsable)
next
  assume h: "messages_create w n prompt = Inr (TextBlock tx # bs)
        \<and> (JSON_parse tx = Some v \<or> JSON_parse tx = None \<and> JSON_parse (cleanContent tx) = Some v)
        \<and> (\<forall>rs. get_prop v (js ''reviews'') \<noteq> Inr (Some (JArr rs)))"
  then have "snd (getAIResponse_try w (Inr (TextBlock tx # bs))) = snd (reviews_of w v)"
    using getAIResponse_try_parsed [of tx v w bs] getAIResponse_try_recovered [of tx v w bs]
    by metis
  moreover from h have "snd (reviews_of w v) = Inr None \<or> (\<exists>e. snd (reviews_of w v) = Inl e)"
    by (intro reviews_of_no_array) blast
  moreover from h have "messages_create w n prompt = Inr (TextBlock tx # bs)"
    by blast
  ultimately show "snd (getAIResponse w n prompt) = Inr None"
    unfolding getAIResponse_snd by (elim disjE exE) simp_all
qed

theorem getAIResponse_never_throws_witness:
  \<open>snd (getAIResponse
          ((demo_world [] (Inr ([], [])))\<lparr>messages_create := \<lambda>k q. Inl (Rejected (js ''overloaded''))\<rparr>)
          0 (js ''p'')) = Inr None
   \<and> snd (getAIResponse (demo_world (js ''not json'') (Inr ([], []))) 0 (js ''p'')) = Inr None
   \<and> snd (getAIResponse (demo_world (js ''{"review":[]}'') (Inr ([], []))) 0 (js ''p'')) = Inr None\<close>
proof -
  have a: "snd (getAIResponse
          ((demo_world [] (Inr ([], [])))\<lparr>messages_create := \<lambda>k q. Inl (Rejected (js ''overloaded''))\<rparr>)
          0 (js ''p'')) = Inr None"
    using getAIResponse_never_throws [where
        w = "(demo_world [] (Inr ([], [])))\<lparr>messages_create := \<lambda>k q. Inl (Rejected (js ''overloaded''))\<rparr>"
        and n = 0 and prompt = "js ''p''" and e = "Rejected (js ''overloaded'')"]
    by simp
  have b: "snd (getAIResponse (demo_world (js ''not json'') (Inr ([], []))) 0 (js ''p'')) = Inr None"
    using getAIResponse_never_throws [where w = "demo_world (js ''not json'') (Inr ([], []))"
        and n = 0 and prompt = "js ''p''" and tx = "js ''not json''" and bs = "[]"]
      demo_not_json
    by (simp add: demo_world_def)
  have \<open>\<forall>rs. get_prop (JObj [(js ''review'', JArr [])]) (js ''reviews'') \<noteq> Inr (Some (JArr rs))\<close>
    by (simp add: get_prop_def js_def)
  then have c: \<open>snd (getAIResponse (demo_world (js ''{"review":[]}'') (Inr ([], []))) 0 (js ''p'')) = Inr None\<close>
    using getAIResponse_never_throws [where w = \<open>demo_world (js ''{"review":[]}'') (Inr ([], []))\<close>
        and n = 0 and prompt = "js ''p''" and tx = \<open>js ''{"review":[]}''\<close> and bs = "[]"
        and v = "JObj [(js ''review'', JArr [])]"]
      demo_no_reviews
    by (simp add: demo_world_def)
  from a b c show ?thesis by simp
qed



section \<open>The line of a review comment\<close>





section \<open>Two runs that stop early\<close>

text \<open>
  The model has one finding for \<open>app.ts\<close>. In the first run the linter cannot be
  started; in the second the host rejects the comment with the lint score.
\<close>

lemma demo_linter_rejected:
  "run (demo_world demo_response (Inl (Rejected (js ''spawn pylint ENOENT''))))
     = [console_log [L [js ''a.py'']],
        console_error [S (js ''Error:''), E (Rejected (js ''spawn pylint ENOENT''))],
        process_exit 1]
   \<and> snd (analyzeCode (demo_world demo_response (Inl (Rejected (js ''spawn pylint ENOENT''))))
          (filteredDiff (demo_world demo_response (Inl (Rejected (js ''spawn pylint ENOENT''))))
             [demo_file (Some (js ''app.ts''))])
          demo_pr)
     = Inr [\<lparr>body = JStr (js ''Use const''), path = js ''app.ts'', line = Num 12\<rparr>]"
  by code_simp

lemma demo_comment_rejected:
  "run ((demo_world demo_response (Inr (js ''Your code has been rated at 7.50/10'', [])))
          \<lparr>createComment_outcome := \<lambda>b. Inl (Rejected (js ''403''))\<rparr>)
     = [console_log [L [js ''a.py'']],
        issues_createComment (js ''o'') (js ''r'') 1
          (js ''The pylint score for this pull request is: 7.50/10''),
        console_error [S (js ''Error:''), E (Rejected (js ''403''))],
        process_exit 1]
   \<and> snd (analyzeCode
          ((demo_world demo_response (Inr (js ''Your code has been rated at 7.50/10'', [])))
             \<lparr>createComment_outcome := \<lambda>b. Inl (Rejected (js ''403''))\<rparr>)
          (filteredDiff
             ((demo_world demo_response (Inr (js ''Your code has been rated at 7.50/10'', [])))
                \<lparr>createComment_outcome := \<lambda>b. Inl (Rejected (js ''403''))\<rparr>)
             [demo_file (Some (js ''app.ts''))])
          demo_pr)
     = Inr [\<lparr>body = JStr (js ''Use const''), path = js ''app.ts'', line = Num 12\<rparr>]"
  by code_simp

section \<open>A failing linter\<close>

text \<open>
  C1, as the code has it. When the linter subprocess fails (\<open>execAsync\<close> rejects), the
  lint score collector rejects with the same error after logging the file list: nothing
  in \<open>getPylintScore\<close> or \<open>main\<close> catches it. A run in which the linter fails makes no call
  that changes the pull request: all it does is write to the console and exit with
  status 1. When such a run gets as far as a parsed diff, it ends with the log of the file
  list, the error logged by the handler of \<open>main\<close>, and the exit with status 1; neither the
  lint score comment nor the review is submitted.
\<close>

theorem linter_failure_aborts_run:
  assumes "glob_py w = Inr files" and "files \<noteq> []"
    and "execAsync w (pylint_command files) = Inl e"
  shows "getPylintScore w = ([console_log [L files]], Inl e)
    \<and> (\<forall>ev \<in> set (run w). is_console ev \<or> ev = process_exit 1)
    \<and> (pr_details w = Inr pr \<and> event_data w = Inr evd
        \<and> (action evd = Some (JStr (js ''opened'')) \<and> pulls_get_diff w = Inr (Some d)
           \<or> action evd = Some (JStr (js ''synchronize'')) \<and> compareCommits w = Inr d)
        \<and> d \<noteq> [] \<and> parseDiff w d = Inr parsed
      \<longrightarrow> (\<exists>t. list_all is_console t
             \<and> run w = t @ [console_log [L files],
                            console_error [S (js ''Error:''), E e], process_exit 1]))"
proof (intro conjI impI)
  show lint: "getPylintScore w = ([console_log [L files]], Inl e)"
    using assms by (rule getPylintScore_rejected)
  from lint_rejected_console [OF lint] show "\<forall>ev \<in> set (run w). is_console ev \<or> ev = process_exit 1"
    by (auto simp: run_main list_all_iff is_console_def split: sum.splits)
  assume h: "pr_details w = Inr pr \<and> event_data w = Inr evd
        \<and> (action evd = Some (JStr (js ''opened'')) \<and> pulls_get_diff w = Inr (Some d)
           \<or> action evd = Some (JStr (js ''synchronize'')) \<and> compareCommits w = Inr d)
        \<and> d \<noteq> [] \<and> parseDiff w d = Inr parsed"
  then have m: "main w = review_diff w pr (Some d)"
    by (intro main_reviewing [of w pr evd]) auto
  obtain t1 comments where a: "analyzeCode w (filteredDiff w parsed) pr = (t1, Inr comments)"
      and c: "list_all is_console t1"
    using analyzeCode_total [of w "filteredDiff w parsed" pr] by blast
  from h have "d \<noteq> []" and "parseDiff w d = Inr parsed" by simp_all
  from review_diff_stages [OF this a lint]
  have "main w = (t1 @ [console_log [L files]], Inl e)"
    by (simp add: m)
  then have "run w = t1 @ [console_log [L files], console_error [S (js ''Error:''), E e], process_exit 1]"
    by (simp add: run_def)
  with c show "\<exists>t. list_all is_console t
             \<and> run w = t @ [console_log [L files],
                            console_error [S (js ''Error:''), E e], process_exit 1]"
    by blast
qed

theorem linter_failure_witness:
  "getPylintScore (demo_world demo_response (Inl (Rejected (js ''spawn pylint ENOENT''))))
     = ([console_log [L [js ''a.py'']]], Inl (Rejected (js ''spawn pylint ENOENT'')))
   \<and> (\<exists>t. list_all is_console t
         \<and> run (demo_world demo_response (Inl (Rejected (js ''spawn pylint ENOENT''))))
           = t @ [console_log [L [js ''a.py'']],
                  console_error [S (js ''Error:''), E (Rejected (js ''spawn pylint ENOENT''))],
                  process_exit 1])"
  using linter_failure_aborts_run [of
      "demo_world demo_response (Inl (Rejected (js ''spawn pylint ENOENT'')))"
      "[js ''a.py'']" "Rejected (js ''spawn pylint ENOENT'')" demo_pr
      "\<lparr>action = Some (JStr (js ''opened''))\<rparr>" "js ''diff''"
      "[demo_file (Some (js ''app.ts''))]"]
  by (simp add: demo_world_def js_def)

text \<open>
  The claim as stated fails: with a linter that cannot be started, the run is aborted with
  status 1 and the comment collected for \<open>app.ts\<close> is never submitted.
\<close>

theorem linter_failure_counterexample:
  "run (demo_world demo_response (Inl (Rejected (js ''spawn pylint ENOENT''))))
     = [console_log [L [js ''a.py'']],
        console_error [S (js ''Error:''), E (Rejected (js ''spawn pylint ENOENT''))],
        process_exit 1]
   \<and> snd (analyzeCode (demo_world demo_response (Inl (Rejected (js ''spawn pylint ENOENT''))))
          (filteredDiff (demo_world demo_response (Inl (Rejected (js ''spawn pylint ENOENT''))))
             [demo_file (Some (js ''app.ts''))])
          demo_pr)
     = Inr [\<lparr>body = JStr (js ''Use const''), path = js ''app.ts'', line = Num 12\<rparr>]"
  using demo_linter_rejected by simp

section \<open>Submitting the review\<close>

text \<open>
  C7, as the code has it. In every run, a review is submitted only with a non-empty list
  of comments, which is a list \<open>analyzeCode\<close> accumulated, and with the event type
  \<open>COMMENT\<close>. A run that parsed a diff and accumulated no comment submits no review.
  A run that parsed a diff, obtained a lint score and posted the lint score comment
  submits exactly one review, with all the accumulated comments, iff their list is
  non-empty.
\<close>

theorem review_submitted_iff_comments:
  "(pulls_createReview a b c cs evn \<in> set (run w) \<longrightarrow>
      cs \<noteq> [] \<and> evn = js ''COMMENT''
      \<and> (\<exists>pr d parsed t. parseDiff w d = Inr parsed
            \<and> analyzeCode w (filteredDiff w parsed) pr = (t, Inr cs)))
   \<and> (pr_details w = Inr pr \<and> event_data w = Inr evd
        \<and> (action evd = Some (JStr (js ''opened'')) \<and> pulls_get_diff w = Inr (Some d)
           \<or> action evd = Some (JStr (js ''synchronize'')) \<and> compareCommits w = Inr d)
        \<and> d \<noteq> [] \<and> parseDiff w d = Inr parsed
        \<and> analyzeCode w (filteredDiff w parsed) pr = (t1, Inr comments)
      \<longrightarrow> (comments = [] \<longrightarrow> filter is_review (run w) = [])
        \<and> (getPylintScore w = (t2, Inr pylintScore)
             \<and> createComment_outcome w (score_comment w pylintScore) = Inr ()
           \<longrightarrow> (list_ex is_review (run w) \<longleftrightarrow> comments \<noteq> [])
             \<and> filter is_review (run w) =
                 (if comments \<noteq> [] then
                    [pulls_createReview (owner pr) (repo pr) (pull_number pr) comments
                       (js ''COMMENT'')]
                  else [])))"
proof (intro conjI impI)
  assume "pulls_createReview a b c cs evn \<in> set (run w)"
  from run_reviews [OF this]
  show "cs \<noteq> []" and "evn = js ''COMMENT''"
    and "\<exists>pr d parsed t. parseDiff w d = Inr parsed
            \<and> analyzeCode w (filteredDiff w parsed) pr = (t, Inr cs)"
    by blast+
next
  assume h: "pr_details w = Inr pr \<and> event_data w = Inr evd
        \<and> (action evd = Some (JStr (js ''opened'')) \<and> pulls_get_diff w = Inr (Some d)
           \<or> action evd = Some (JStr (js ''synchronize'')) \<and> compareCommits w = Inr d)
        \<and> d \<noteq> [] \<and> parseDiff w d = Inr parsed
        \<and> analyzeCode w (filteredDiff w parsed) pr = (t1, Inr comments)"
  then have m: "main w = review_diff w pr (Some d)"
    by (intro main_reviewing [of w pr evd]) auto
  from h have d: "d \<noteq> []" and p: "parseDiff w d = Inr parsed"
    and a: "analyzeCode w (filteredDiff w parsed) pr = (t1, Inr comments)"
    by simp_all
  from analyzeCode_total [of w "filteredDiff w parsed" pr] a have c1: "list_all is_console t1"
    by auto
  {
    assume e: "comments = []"
    obtain t r where l: "getPylintScore w = (t, r)" by (cases "getPylintScore w")
    with getPylintScore_console [of w] have c: "list_all is_console t" by simp
    show "filter is_review (run w) = []"
      unfolding run_main m review_diff_stages [OF d p a l]
      by (simp add: e no_review_in_console [OF c1] no_review_in_console [OF c] is_review_def
          split: sum.splits)
  }
  {
    assume g: "getPylintScore w = (t2, Inr pylintScore)
             \<and> createComment_outcome w (score_comment w pylintScore) = Inr ()"
    then have l: "getPylintScore w = (t2, Inr pylintScore)"
      and o: "createComment_outcome w (score_comment w pylintScore) = Inr ()"
      by simp_all
    from getPylintScore_console [of w] l have c2: "list_all is_console t2"
      by simp
    have f: "filter is_review (run w) =
            (if comments \<noteq> [] then
               [pulls_createReview (owner pr) (repo pr) (pull_number pr) comments (js ''COMMENT'')]
             else [])"
      unfolding run_main m review_diff_stages [OF d p a l]
      by (simp add: o no_review_in_console [OF c1] no_review_in_console [OF c2] is_review_def
          split: sum.splits)
    then show "filter is_review (run w) =
            (if comments \<noteq> [] then
               [pulls_createReview (owner pr) (repo pr) (pull_number pr) comments (js ''COMMENT'')]
             else [])" .
    have "list_ex is_review (run w) \<longleftrightarrow> filter is_review (run w) \<noteq> []"
      by (simp add: list_ex_iff filter_empty_conv)
    with f show "list_ex is_review (run w) \<longleftrightarrow> comments \<noteq> []"
      by simp
  }
qed

lemma demo_review_stages:
  "analyzeCode (demo_world demo_response (Inr (js ''Your code has been rated at 7.50/10'', [])))
     (filteredDiff (demo_world demo_response (Inr (js ''Your code has been rated at 7.50/10'', [])))
        [demo_file (Some (js ''app.ts''))])
     demo_pr
   = ([], Inr [\<lparr>body = JStr (js ''Use const''), path = js ''app.ts'', line = Num 12\<rparr>])
   \<and> getPylintScore (demo_world demo_response (Inr (js ''Your code has been rated at 7.50/10'', [])))
     = ([console_log [L [js ''a.py'']]], Inr (15 / 2))"
  by code_simp

theorem review_submitted_witness:
  "filter is_review
     (run (demo_world demo_response (Inr (js ''Your code has been rated at 7.50/10'', []))))
   = [pulls_createReview (js ''o'') (js ''r'') 1
        [\<lparr>body = JStr (js ''Use const''), path = js ''app.ts'', line = Num 12\<rparr>]
        (js ''COMMENT'')]
   \<and> list_ex is_review
       (run (demo_world demo_response (Inr (js ''Your code has been rated at 7.50/10'', []))))"
  using demo_review_stages
    review_submitted_iff_comments [where
      w = "demo_world demo_response (Inr (js ''Your code has been rated at 7.50/10'', []))"
      and pr = demo_pr and evd = "\<lparr>action = Some (JStr (js ''opened''))\<rparr>"
      and d = "js ''diff''" and parsed = "[demo_file (Some (js ''app.ts''))]"
      and ?t1.0 = "[]"
      and comments = "[\<lparr>body = JStr (js ''Use const''), path = js ''app.ts'', line = Num 12\<rparr>]"
      and ?t2.0 = "[console_log [L [js ''a.py'']]]" and pylintScore = "15 / 2"]
  by (simp add: demo_world_def demo_pr_def js_def)

text \<open>
  The claim as stated, "submitted iff the count is nonzero" for every run, fails on the
  runs that stop before the submission. In both runs below one comment was accumulated
  and no review is submitted: in the first the linter cannot be started, in the second
  the host rejects the comment with the lint score.
\<close>

theorem review_not_submitted_counterexample:
  "filter is_review (run (demo_world demo_response (Inl (Rejected (js ''spawn pylint ENOENT'')))))
     = []
   \<and> snd (analyzeCode (demo_world demo_response (Inl (Rejected (js ''spawn pylint ENOENT''))))
          (filteredDiff (demo_world demo_response (Inl (Rejected (js ''spawn pylint ENOENT''))))
             [demo_file (Some (js ''app.ts''))])
          demo_pr)
     = Inr [\<lparr>body = JStr (js ''Use const''), path = js ''app.ts'', line = Num 12\<rparr>]
   \<and> filter is_review
       (run ((demo_world demo_response (Inr (js ''Your code has been rated at 7.50/10'', [])))
          \<lparr>createComment_outcome := \<lambda>b. Inl (Rejected (js ''403''))\<rparr>))
     = []
   \<and> snd (analyzeCode
          ((demo_world demo_response (Inr (js ''Your code has been rated at 7.50/10'', [])))
             \<lparr>createComment_outcome := \<lambda>b. Inl (Rejected (js ''403''))\<rparr>)
          (filteredDiff
             ((demo_world demo_response (Inr (js ''Your code has been rated at 7.50/10'', [])))
                \<lparr>createComment_outcome := \<lambda>b. Inl (Rejected (js ''403''))\<rparr>)
             [demo_file (Some (js ''app.ts''))])
          demo_pr)
     = Inr [\<lparr>body = JStr (js ''Use const''), path = js ''app.ts'', line = Num 12\<rparr>]"
  using demo_linter_rejected demo_comment_rejected by (simp add: is_review_def)

end
